theory Spec2Isabelle
  imports Main "HOL-Library.Sublist"
begin

text \<open>
  A model of the three scripts that fill the \<open>Image\<close> column of a workbook from an image
  search: \<open>fill_images_in_xlsx_multi_bing.py\<close>, \<open>fill_images_in_xlsx_multi_google.py\<close> and
  \<open>fill_images_in_xlsx_pixibay.py\<close>. Pure functions are HOL functions of the same name;
  the worksheet is passed as a state; an exception is the left summand of a result; the
  network and the file system are parameters of the functions that use them.
\<close>

section \<open>Python strings\<close>

text \<open>
  The three scripts work on Python \<open>str\<close> values. A string is modelled as a list of
  8-bit characters, read as the code points U+0000 to U+00FF. On these, \<open>isspace\<close> is the
  whitespace that \<open>str.split()\<close> and \<open>str.strip()\<close> recognise (tab, line feed, vertical
  tab, form feed, carriage return, the four separators 0x1C..0x1F, the space, the next-line
  control 0x85 and the no-break space 0xA0), and \<open>lower\<close> is \<open>str.lower()\<close>: \<open>A..Z\<close> go
  to \<open>a..z\<close> and the accented capitals 0xC0..0xDE (the multiplication sign 0xD7 apart) to
  the letters 32 places up.
\<close>

definition isspace :: "char \<Rightarrow> bool" where
  "isspace c = (c \<in> {CHR 0x09, CHR 0x0A, CHR 0x0B, CHR 0x0C, CHR 0x0D,
                       CHR 0x1C, CHR 0x1D, CHR 0x1E, CHR 0x1F, CHR 0x20,
                       CHR 0x85, CHR 0xA0})"

definition latin1_upper :: string where
  "latin1_upper =
     [CHR 0xC0, CHR 0xC1, CHR 0xC2, CHR 0xC3, CHR 0xC4, CHR 0xC5, CHR 0xC6, CHR 0xC7,
      CHR 0xC8, CHR 0xC9, CHR 0xCA, CHR 0xCB, CHR 0xCC, CHR 0xCD, CHR 0xCE, CHR 0xCF,
      CHR 0xD0, CHR 0xD1, CHR 0xD2, CHR 0xD3, CHR 0xD4, CHR 0xD5, CHR 0xD6, CHR 0xD8,
      CHR 0xD9, CHR 0xDA, CHR 0xDB, CHR 0xDC, CHR 0xDD, CHR 0xDE]"

definition latin1_lower :: string where
  "latin1_lower =
     [CHR 0xE0, CHR 0xE1, CHR 0xE2, CHR 0xE3, CHR 0xE4, CHR 0xE5, CHR 0xE6, CHR 0xE7,
      CHR 0xE8, CHR 0xE9, CHR 0xEA, CHR 0xEB, CHR 0xEC, CHR 0xED, CHR 0xEE, CHR 0xEF,
      CHR 0xF0, CHR 0xF1, CHR 0xF2, CHR 0xF3, CHR 0xF4, CHR 0xF5, CHR 0xF6, CHR 0xF8,
      CHR 0xF9, CHR 0xFA, CHR 0xFB, CHR 0xFC, CHR 0xFD, CHR 0xFE]"

definition lower_char :: "char \<Rightarrow> char" where
  "lower_char c =
     (case map_of (zip (''ABCDEFGHIJKLMNOPQRSTUVWXYZ'' @ latin1_upper)
                       (''abcdefghijklmnopqrstuvwxyz'' @ latin1_lower)) c of
        None \<Rightarrow> c
      | Some d \<Rightarrow> d)"

definition lower :: "string \<Rightarrow> string" where
  "lower s = map lower_char s"

text \<open>\<open>s.strip()\<close>: leading and trailing whitespace removed.\<close>

definition strip :: "string \<Rightarrow> string" where
  "strip s = rev (dropWhile isspace (rev (dropWhile isspace s)))"

text \<open>
  \<open>s.split()\<close>: the maximal runs of non-whitespace characters, in order. \<open>split_acc w s\<close>
  scans \<open>s\<close> with the word \<open>w\<close> read so far.
\<close>

fun split_acc :: "string \<Rightarrow> string \<Rightarrow> string list" where
  "split_acc w [] = (if w = [] then [] else [w])"
| "split_acc w (c # cs) =
     (if isspace c then (if w = [] then split_acc [] cs else w # split_acc [] cs)
      else split_acc (w @ [c]) cs)"

definition split :: "string \<Rightarrow> string list" where
  "split s = split_acc [] s"

text \<open>\<open>sep.join(xs)\<close>.\<close>

fun join :: "string \<Rightarrow> string list \<Rightarrow> string" where
  "join sep [] = []"
| "join sep [x] = x"
| "join sep (x # y # ys) = x @ sep @ join sep (y # ys)"

section \<open>Query construction\<close>

text \<open>
  \<open>dedupe_words\<close> of \<open>fill_images_in_xlsx_multi_bing.py\<close> and
  \<open>fill_images_in_xlsx_multi_google.py\<close> (the two bodies differ only in the name of the
  output list):
  \<^verbatim>\<open>
    seen = set(); out = []
    for w in text.split():
        wl = w.lower()
        if wl in seen: continue
        seen.add(wl); out.append(w)
    return " ".join(out)
  \<close>
  \<open>dedupe_loop\<close> is the loop, with the state \<open>seen\<close>, \<open>out\<close> passed along.
\<close>

fun dedupe_loop :: "string list \<Rightarrow> string set \<Rightarrow> string list \<Rightarrow> string list" where
  "dedupe_loop [] seen out = out"
| "dedupe_loop (w # ws) seen out =
     (let wl = lower w in
      if wl \<in> seen then dedupe_loop ws seen out
      else dedupe_loop ws (insert wl seen) (out @ [w]))"

definition dedupe_words :: "string \<Rightarrow> string" where
  "dedupe_words s = join '' '' (dedupe_loop (split s) {} [])"


section \<open>Cell values and worksheets\<close>

text \<open>
  A cell of an \<open>openpyxl\<close> worksheet holds \<open>None\<close>, a string, an integer or a boolean
  (floating-point numbers and dates are left out). \<open>py_str\<close> is \<open>str(v)\<close> and \<open>truthy\<close> is
  the truth value Python gives \<open>v\<close> in a condition.
\<close>

datatype cell = CNone | CStr string | CInt int | CBool bool

fun str_nat :: "nat \<Rightarrow> string" where
  "str_nat n =
     (if n < 10 then [''0123456789'' ! n]
      else str_nat (n div 10) @ [''0123456789'' ! (n mod 10)])"

declare str_nat.simps [simp del]

fun py_str :: "cell \<Rightarrow> string" where
  "py_str CNone = ''None''"
| "py_str (CStr s) = s"
| "py_str (CInt i) = (if i < 0 then CHR ''-'' # str_nat (nat (- i)) else str_nat (nat i))"
| "py_str (CBool b) = (if b then ''True'' else ''False'')"

fun truthy :: "cell \<Rightarrow> bool" where
  "truthy CNone = False"
| "truthy (CStr s) = (s \<noteq> [])"
| "truthy (CInt i) = (i \<noteq> 0)"
| "truthy (CBool b) = b"

text \<open>
  The guard the scripts put on a cell before using it, \<^verbatim>\<open>v and str(v).strip()\<close>: written
  for the title (\<^verbatim>\<open>not title_val or not str(title_val).strip()\<close> skips the row), for the
  existing image and for each optional query column.
\<close>

definition nonblank :: "cell \<Rightarrow> bool" where
  "nonblank v = (truthy v \<and> strip (py_str v) \<noteq> [])"

text \<open>
  The observable state of a worksheet: the value at each coordinate \<open>(row, column)\<close>
  (\<open>CNone\<close> where there is no cell), \<open>ws.max_row\<close> and \<open>ws.max_column\<close>. The field
  \<open>writes\<close> is a ghost log of the coordinates given to \<^verbatim>\<open>ws.cell(row, column, value=v)\<close>,
  latest last. A new worksheet has \<open>max_row = 1\<close> and \<open>max_column = 1\<close>, and a write
  extends both to cover the written cell.
\<close>

record sheet =
  cell_value :: "nat \<times> nat \<Rightarrow> cell"
  max_row :: nat
  max_column :: nat
  writes :: "(nat \<times> nat) list"

definition empty_sheet :: sheet where
  "empty_sheet = \<lparr>cell_value = (\<lambda>_. CNone), max_row = 1, max_column = 1, writes = []\<rparr>"

definition set_cell :: "sheet \<Rightarrow> nat \<Rightarrow> nat \<Rightarrow> cell \<Rightarrow> sheet" where
  "set_cell ws r c v =
     ws\<lparr>cell_value := (cell_value ws)((r, c) := v),
        max_row := max (max_row ws) r,
        max_column := max (max_column ws) c,
        writes := writes ws @ [(r, c)]\<rparr>"

definition TITLE_HEADER :: string where "TITLE_HEADER = ''Title''"
definition IMAGE_HEADER :: string where "IMAGE_HEADER = ''Image''"
definition OPTIONAL_QUERY_COLUMNS :: "string list" where
  "OPTIONAL_QUERY_COLUMNS = [''Brand'', ''Region'']"

text \<open>
  \<open>ensure_headers\<close> (the same in the three scripts). \<open>read_headers\<close> is its first loop over
  the columns \<open>1..max_col\<close> of row 1, \<open>add_headers\<close> its second loop over
  \<open>headers_needed\<close> with the state \<open>(ws, existing, max_col)\<close>.
\<close>

fun read_headers :: "sheet \<Rightarrow> nat list \<Rightarrow> (string \<rightharpoonup> nat) \<Rightarrow> (string \<rightharpoonup> nat)" where
  "read_headers ws [] existing = existing"
| "read_headers ws (col # cols) existing =
     (case cell_value ws (1, col) of
        CStr val \<Rightarrow>
          (if strip val \<noteq> [] then read_headers ws cols (existing(strip val \<mapsto> col))
           else read_headers ws cols existing)
      | _ \<Rightarrow> read_headers ws cols existing)"

fun add_headers ::
  "string list \<Rightarrow> sheet \<times> (string \<rightharpoonup> nat) \<times> nat \<Rightarrow> sheet \<times> (string \<rightharpoonup> nat) \<times> nat" where
  "add_headers [] st = st"
| "add_headers (h # hs) (ws, existing, max_col) =
     (if existing h = None
      then add_headers hs
             (set_cell ws 1 (max_col + 1) (CStr h), existing(h \<mapsto> max_col + 1), max_col + 1)
      else add_headers hs (ws, existing, max_col))"

definition ensure_headers :: "sheet \<Rightarrow> string list \<Rightarrow> sheet \<times> (string \<rightharpoonup> nat)" where
  "ensure_headers ws headers_needed =
     (let max_col = (if max_column ws = 0 then 1 else max_column ws);
          existing = read_headers ws [1..<max_col + 1] Map.empty;
          (ws', existing', max_col') = add_headers headers_needed (ws, existing, max_col)
      in (ws', existing'))"

text \<open>
  \<open>build_query\<close> of the Bing and Google scripts: the stripped title, then the stripped
  value of each optional column that the sheet has and whose cell passes the guard, joined
  by single spaces and de-duplicated. \<open>optional_bits\<close> is the loop over
  \<open>OPTIONAL_QUERY_COLUMNS\<close>. \<open>build_query_pixabay\<close> is \<open>build_query\<close> of the Pixabay script,
  which returns the joined parts as they are.
\<close>

fun optional_bits :: "sheet \<Rightarrow> nat \<Rightarrow> (string \<rightharpoonup> nat) \<Rightarrow> string list \<Rightarrow> string list" where
  "optional_bits ws row_idx col_index_by_name [] = []"
| "optional_bits ws row_idx col_index_by_name (col_name # rest) =
     (case col_index_by_name col_name of
        None \<Rightarrow> optional_bits ws row_idx col_index_by_name rest
      | Some idx \<Rightarrow>
          (if idx \<noteq> 0 \<and> nonblank (cell_value ws (row_idx, idx))
           then strip (py_str (cell_value ws (row_idx, idx)))
                  # optional_bits ws row_idx col_index_by_name rest
           else optional_bits ws row_idx col_index_by_name rest))"

definition query_bits :: "string \<Rightarrow> sheet \<Rightarrow> nat \<Rightarrow> (string \<rightharpoonup> nat) \<Rightarrow> string list" where
  "query_bits base_title ws row_idx col_index_by_name =
     strip base_title # optional_bits ws row_idx col_index_by_name OPTIONAL_QUERY_COLUMNS"

definition build_query :: "string \<Rightarrow> sheet \<Rightarrow> nat \<Rightarrow> (string \<rightharpoonup> nat) \<Rightarrow> string" where
  "build_query base_title ws row_idx col_index_by_name =
     dedupe_words (join '' '' (query_bits base_title ws row_idx col_index_by_name))"

definition build_query_pixabay :: "string \<Rightarrow> sheet \<Rightarrow> nat \<Rightarrow> (string \<rightharpoonup> nat) \<Rightarrow> string" where
  "build_query_pixabay base_title ws row_idx col_index_by_name =
     join '' '' (query_bits base_title ws row_idx col_index_by_name)"


section \<open>Network calls\<close>

text \<open>
  The network is outside the program. A request is an oracle that answers with an
  exception or a response; a response has its status code and what the script reads from
  its body. The exceptions are subclasses of \<open>Exception\<close>. \<open>raise_for_status\<close> tells
  whether \<^verbatim>\<open>r.raise_for_status()\<close> raises (a status in 400..599). Events record what a
  provider function did, in order: a GET (with the page cursor or the attempt number), a
  HEAD probe of a candidate, a sleep in milliseconds; \<open>after evs res\<close> is the result \<open>res\<close>
  of a computation that follows the events \<open>evs\<close>.
\<close>

datatype exn =
    RequestException
  | ValueError
  | JSONDecodeError
  | KeyError string
  | EOFError
  | RuntimeError string

record 'a response =
  status_code :: int
  body :: 'a

definition raise_for_status :: "'a response \<Rightarrow> bool" where
  "raise_for_status r = (400 \<le> status_code r \<and> status_code r < 600)"

datatype event = Request nat | Probe string | Sleep nat

definition after :: "event list \<Rightarrow> 'a \<times> event list \<Rightarrow> 'a \<times> event list" where
  "after evs res = (fst res, evs @ snd res)"

text \<open>
  \<open>head_ok\<close> (the same in the three scripts); \<open>head url timeout\<close> stands for
  \<^verbatim>\<open>requests.head(url, timeout=timeout, allow_redirects=True)\<close> and answers with the
  status code of the final response.
\<close>

definition head_ok :: "(string \<Rightarrow> int \<Rightarrow> exn + int) \<Rightarrow> string \<Rightarrow> int \<Rightarrow> bool" where
  "head_ok head url timeout =
     (case head url timeout of
        Inl e \<Rightarrow> False
      | Inr code \<Rightarrow> 200 \<le> code \<and> code < 400)"

text \<open>
  \<open>urlparse_netloc url\<close> models \<^verbatim>\<open>urlparse(url).netloc\<close> of the standard library: leading
  control characters and spaces are dropped, tabs and line breaks removed, a scheme
  (a letter, then letters, digits, \<open>+\<close>, \<open>-\<close>, \<open>.\<close>, up to the first colon) is split off, and
  after \<open>//\<close> the network location runs up to the first \<open>/\<close>, \<open>?\<close> or \<open>#\<close>. One square
  bracket without the other raises \<open>ValueError\<close>. With both, the text between the first
  \<open>[\<close> and the \<open>]\<close> that follows it goes through the library's \<open>_check_bracketed_host\<close>,
  which raises \<open>ValueError\<close> unless that text is an IPvFuture literal (\<open>v\<close>, hexadecimal
  digits, a dot, then at least one character) or an IPv6 address as
  \<open>ipaddress.ip_address\<close> reads it.

  The predicates below say when the library call of the same name returns rather than
  raises. \<open>split_sep sep s\<close> is \<^verbatim>\<open>s.split(sep)\<close>. \<open>IPv4Address\<close> wants four decimal octets
  of at most three digits, without a leading zero and at most 255. \<open>IPv6Address\<close> splits
  off a scope after \<open>%\<close>, splits the address at the colons, reads a dotted last part as an
  IPv4 address worth two groups, allows one \<open>::\<close> for one or more missing groups, and
  wants eight groups of one to four hexadecimal digits in all.
\<close>

definition ascii_letters :: string where
  "ascii_letters = ''abcdefghijklmnopqrstuvwxyzABCDEFGHIJKLMNOPQRSTUVWXYZ''"

definition scheme_chars :: string where
  "scheme_chars = ascii_letters @ ''0123456789+-.''"

definition split_scheme :: "string \<Rightarrow> string" where
  "split_scheme url =
     (let pre = takeWhile (\<lambda>c. c \<noteq> CHR '':'') url in
      if CHR '':'' \<in> set url \<and> pre \<noteq> [] \<and> hd pre \<in> set ascii_letters
         \<and> list_all (\<lambda>c. c \<in> set scheme_chars) pre
      then drop (length pre + 1) url
      else url)"

definition hex_digits :: string where
  "hex_digits = ''0123456789abcdefABCDEF''"

definition decimal_digits :: string where
  "decimal_digits = ''0123456789''"

fun split_sep_acc :: "char \<Rightarrow> string \<Rightarrow> string \<Rightarrow> string list" where
  "split_sep_acc sep w [] = [w]"
| "split_sep_acc sep w (c # cs) =
     (if c = sep then w # split_sep_acc sep [] cs else split_sep_acc sep (w @ [c]) cs)"

definition split_sep :: "char \<Rightarrow> string \<Rightarrow> string list" where
  "split_sep sep s = split_sep_acc sep [] s"

definition int_decimal :: "string \<Rightarrow> nat" where
  "int_decimal s = foldl (\<lambda>n c. 10 * n + (of_char c - 48)) 0 s"

definition parse_octet :: "string \<Rightarrow> bool" where
  "parse_octet octet_str =
     (if octet_str = [] then False
      else if \<not> list_all (\<lambda>c. c \<in> set decimal_digits) octet_str then False
      else if length octet_str > 3 then False
      else if octet_str \<noteq> ''0'' \<and> hd octet_str = CHR ''0'' then False
      else if int_decimal octet_str > 255 then False
      else True)"

definition IPv4Address :: "string \<Rightarrow> bool" where
  "IPv4Address addr_str =
     (if CHR ''/'' \<in> set addr_str then False
      else if addr_str = [] then False
      else (let octets = split_sep CHR ''.'' addr_str
            in if length octets \<noteq> 4 then False else list_all parse_octet octets))"

definition parse_hextet :: "string \<Rightarrow> bool" where
  "parse_hextet hextet_str =
     (if \<not> list_all (\<lambda>c. c \<in> set hex_digits) hextet_str then False
      else if length hextet_str > 4 then False
      else hextet_str \<noteq> [])"

definition ipv6_from_string :: "string \<Rightarrow> bool" where
  "ipv6_from_string ip_str =
     (if ip_str = [] then False
      else (let parts0 = split_sep CHR '':'' ip_str in
        if length parts0 < 3 then False
        else if CHR ''.'' \<in> set (last parts0) \<and> \<not> IPv4Address (last parts0) then False
        else (let parts = (if CHR ''.'' \<in> set (last parts0) then butlast parts0 @ [''0'', ''0'']
                           else parts0);
                  n = length parts;
                  skips = filter (\<lambda>i. parts ! i = []) [1..<n - 1]
              in if n > 9 then False
                 else if length skips > 1 then False
                 else if skips \<noteq> [] then
                   (let skip_index = hd skips;
                        parts_hi = (if hd parts = [] then skip_index - 1 else skip_index);
                        parts_lo = (if last parts = [] then n - skip_index - 1 - 1
                                    else n - skip_index - 1)
                    in if hd parts = [] \<and> parts_hi \<noteq> 0 then False
                       else if last parts = [] \<and> parts_lo \<noteq> 0 then False
                       else if 8 - int (parts_hi + parts_lo) < 1 then False
                       else list_all parse_hextet (take parts_hi parts)
                          \<and> list_all parse_hextet (drop (n - parts_lo) parts))
                 else if n \<noteq> 8 then False
                 else if hd parts = [] then False
                 else if last parts = [] then False
                 else list_all parse_hextet parts)))"

definition IPv6Address :: "string \<Rightarrow> bool" where
  "IPv6Address addr_str =
     (if CHR ''/'' \<in> set addr_str then False
      else (let addr = takeWhile (\<lambda>c. c \<noteq> CHR ''%'') addr_str;
                scope_id = drop (length addr + 1) addr_str
            in if CHR ''%'' \<in> set addr_str \<and> (scope_id = [] \<or> CHR ''%'' \<in> set scope_id) then False
               else ipv6_from_string addr))"

definition check_bracketed_host :: "string \<Rightarrow> bool" where
  "check_bracketed_host hostname =
     (if take 1 hostname = ''v''
      then (let digits = takeWhile (\<lambda>c. c \<in> set hex_digits) (drop 1 hostname);
                rest = drop (1 + length digits) hostname
            in digits \<noteq> [] \<and> take 1 rest = ''.'' \<and> drop 1 rest \<noteq> []
               \<and> CHR 0x0A \<notin> set (drop 1 rest))
      else if IPv4Address hostname then False
      else IPv6Address hostname)"

definition bracketed_host :: "string \<Rightarrow> string" where
  "bracketed_host netloc =
     takeWhile (\<lambda>c. c \<noteq> CHR '']'') (drop 1 (dropWhile (\<lambda>c. c \<noteq> CHR ''['') netloc))"

definition urlparse_netloc :: "string \<Rightarrow> exn + string" where
  "urlparse_netloc url0 =
     (let url1 = dropWhile (\<lambda>c. (of_char c :: nat) \<le> 32) url0;
          url2 = filter (\<lambda>c. c \<notin> {CHR 0x09, CHR 0x0A, CHR 0x0D}) url1;
          url = split_scheme url2
      in if take 2 url = ''//''
         then (let netloc = takeWhile (\<lambda>c. c \<notin> {CHR ''/'', CHR ''?'', CHR ''#''}) (drop 2 url)
               in if (CHR ''['' \<in> set netloc) \<noteq> (CHR '']'' \<in> set netloc)
                  then Inl ValueError
                  else if CHR ''['' \<in> set netloc \<and> \<not> check_bracketed_host (bracketed_host netloc)
                  then Inl ValueError
                  else Inr netloc)
         else Inr [])"

text \<open>
  \<open>domain_is_allowed\<close> of the Bing script, with the configured list \<open>ALLOWED_DOMAINS\<close>
  as its first argument; \<open>endswith s d\<close> is \<^verbatim>\<open>s.endswith(d)\<close>. The Google and Pixabay
  scripts have no such check.
\<close>

definition endswith :: "string \<Rightarrow> string \<Rightarrow> bool" where
  "endswith s d = suffix d s"

definition domain_is_allowed :: "string list \<Rightarrow> string \<Rightarrow> bool" where
  "domain_is_allowed allowed_domains url =
     (if allowed_domains = [] then True
      else (case urlparse_netloc url of
              Inl e \<Rightarrow> False
            | Inr netloc \<Rightarrow>
                (let host = lower netloc
                 in list_ex (\<lambda>d. endswith host (lower d)) allowed_domains)))"

section \<open>Providers\<close>

text \<open>
  \<open>bing_first_live_image\<close>: \<open>get query first\<close> stands for the GET of the result page
  with cursor \<open>first\<close>, its body being the candidate list that
  \<open>parse_bing_image_results\<close> extracts from the page. \<open>first_live_candidate\<close> is the inner
  loop over the candidates of one page, \<open>bing_pages_loop\<close> the outer loop over
  \<open>BING_PAGES_FIRST_PARAMS\<close>; a page whose request fails is passed over by \<^verbatim>\<open>continue\<close>,
  a page without a usable candidate is followed by a pause of 0.3 seconds.
\<close>

definition BING_PAGES_FIRST_PARAMS :: "nat list" where
  "BING_PAGES_FIRST_PARAMS = [1, 11]"

fun first_live_candidate ::
  "(string \<Rightarrow> int \<Rightarrow> exn + int) \<Rightarrow> string list \<Rightarrow> string list \<Rightarrow> string option \<times> event list" where
  "first_live_candidate head allowed_domains [] = (None, [])"
| "first_live_candidate head allowed_domains (candidate # rest) =
     (if \<not> domain_is_allowed allowed_domains candidate
      then first_live_candidate head allowed_domains rest
      else if head_ok head candidate 10 then (Some candidate, [Probe candidate])
      else after [Probe candidate] (first_live_candidate head allowed_domains rest))"

fun bing_pages_loop ::
  "(string \<Rightarrow> nat \<Rightarrow> exn + string list response) \<Rightarrow> (string \<Rightarrow> int \<Rightarrow> exn + int) \<Rightarrow>
   string list \<Rightarrow> string \<Rightarrow> nat list \<Rightarrow> string option \<times> event list" where
  "bing_pages_loop get head allowed_domains query [] = (None, [])"
| "bing_pages_loop get head allowed_domains query (first # rest) =
     (case get query first of
        Inl e \<Rightarrow> after [Request first] (bing_pages_loop get head allowed_domains query rest)
      | Inr r \<Rightarrow>
          (if raise_for_status r
           then after [Request first] (bing_pages_loop get head allowed_domains query rest)
           else (case first_live_candidate head allowed_domains (body r) of
                   (Some candidate, evs) \<Rightarrow> (Some candidate, Request first # evs)
                 | (None, evs) \<Rightarrow>
                     after (Request first # evs @ [Sleep 300])
                       (bing_pages_loop get head allowed_domains query rest))))"

definition bing_first_live_image ::
  "(string \<Rightarrow> nat \<Rightarrow> exn + string list response) \<Rightarrow> (string \<Rightarrow> int \<Rightarrow> exn + int) \<Rightarrow>
   string list \<Rightarrow> string \<Rightarrow> string option \<times> event list" where
  "bing_first_live_image get head allowed_domains query =
     bing_pages_loop get head allowed_domains query BING_PAGES_FIRST_PARAMS"

text \<open>
  \<open>google_image_search\<close>: \<open>get params attempt\<close> stands for
  \<^verbatim>\<open>requests.get(GOOGLE_ENDPOINT, params=params, timeout=REQUEST_TIMEOUT)\<close>, the first
  request being attempt 0 and the one after the pause attempt 1. The body of a response is
  what \<^verbatim>\<open>r.json()\<close> gives: an exception, or the \<open>link\<close> field of each item (\<open>None\<close> where
  an item has none). \<^verbatim>\<open>r.json()\<close> stands after the \<^verbatim>\<open>try\<close> block, so its
  exception leaves the function.
\<close>

record google_params =
  key :: string
  cx :: string
  q :: string
  num :: int

definition item_links :: "string option list \<Rightarrow> string list" where
  "item_links items = concat (map (\<lambda>link. case link of None \<Rightarrow> [] | Some u \<Rightarrow> if u = [] then [] else [u]) items)"

definition read_items :: "(exn + string option list) response \<Rightarrow> exn + string list" where
  "read_items r = (case body r of Inl e \<Rightarrow> Inl e | Inr items \<Rightarrow> Inr (item_links items))"

definition google_image_search ::
  "(google_params \<Rightarrow> nat \<Rightarrow> exn + (exn + string option list) response) \<Rightarrow>
   string \<Rightarrow> string \<Rightarrow> string \<Rightarrow> int \<Rightarrow> (exn + string list) \<times> event list" where
  "google_image_search get k c query n =
     (let params = \<lparr>key = k, cx = c, q = query, num = min (max 1 n) 10\<rparr> in
      case get params 0 of
        Inl e \<Rightarrow> (Inr [], [Request 0])
      | Inr r \<Rightarrow>
          (if status_code r = 429
           then (case get params 1 of
                   Inl e \<Rightarrow> (Inr [], [Request 0, Sleep 2000, Request 1])
                 | Inr r2 \<Rightarrow>
                     (if raise_for_status r2 then (Inr [], [Request 0, Sleep 2000, Request 1])
                      else (read_items r2, [Request 0, Sleep 2000, Request 1])))
           else if raise_for_status r then (Inr [], [Request 0])
           else (read_items r, [Request 0])))"

definition RESULTS_PER_QUERY :: int where "RESULTS_PER_QUERY = 10"

text \<open>Step 5 of the Google script's row loop: the first candidate that \<open>head_ok\<close> accepts.\<close>

fun first_live :: "(string \<Rightarrow> int \<Rightarrow> exn + int) \<Rightarrow> string list \<Rightarrow> string option \<times> event list" where
  "first_live head [] = (None, [])"
| "first_live head (url # rest) =
     (if head_ok head url 10 then (Some url, [Probe url])
      else after [Probe url] (first_live head rest))"

text \<open>
  \<open>pixabay_first_image_url\<close>, with the module-level \<open>API_KEY\<close> as its first argument. The
  body of a response is what \<^verbatim>\<open>r.json()\<close> gives: an exception, or the three URL fields
  of each hit. \<open>hit_candidate\<close> is
  \<^verbatim>\<open>h.get("largeImageURL") or h.get("webformatURL") or h.get("previewURL")\<close>, with
  \<open>None\<close> for a value that the following \<^verbatim>\<open>if not candidate\<close> passes over.
\<close>

record hit =
  largeImageURL :: "string option"
  webformatURL :: "string option"
  previewURL :: "string option"

definition nonempty :: "string option \<Rightarrow> bool" where
  "nonempty v = (case v of None \<Rightarrow> False | Some u \<Rightarrow> u \<noteq> [])"

definition hit_candidate :: "hit \<Rightarrow> string option" where
  "hit_candidate h =
     (if nonempty (largeImageURL h) then largeImageURL h
      else if nonempty (webformatURL h) then webformatURL h
      else if nonempty (previewURL h) then previewURL h
      else None)"

fun first_live_hit :: "(string \<Rightarrow> int \<Rightarrow> exn + int) \<Rightarrow> hit list \<Rightarrow> string option \<times> event list" where
  "first_live_hit head [] = (None, [])"
| "first_live_hit head (h # rest) =
     (case hit_candidate h of
        None \<Rightarrow> first_live_hit head rest
      | Some candidate \<Rightarrow>
          (if head_ok head candidate 10 then (Some candidate, [Probe candidate])
           else after [Probe candidate] (first_live_hit head rest)))"

definition PIXABAY_KEY_MESSAGE :: string where
  "PIXABAY_KEY_MESSAGE =
     ''PIXABAY_API_KEY is not set. Export it in your shell: export PIXABAY_API_KEY=YOUR_KEY_HERE''"

definition pixabay_first_image_url ::
  "string \<Rightarrow> (string \<Rightarrow> exn + (exn + hit list) response) \<Rightarrow> (string \<Rightarrow> int \<Rightarrow> exn + int) \<Rightarrow>
   string \<Rightarrow> (exn + string option) \<times> event list" where
  "pixabay_first_image_url api_key get head query =
     (if api_key = [] then (Inl (RuntimeError PIXABAY_KEY_MESSAGE), [])
      else (case get query of
              Inl e \<Rightarrow> (Inr None, [Request 1])
            | Inr r \<Rightarrow>
                (if raise_for_status r then (Inr None, [Request 1])
                 else (case body r of
                         Inl e \<Rightarrow> (Inl e, [Request 1])
                       | Inr hits \<Rightarrow>
                           (let (found, evs) = first_live_hit head hits
                            in (Inr found, Request 1 # evs))))))"


section \<open>The pass over a workbook\<close>

text \<open>
  The row loop of \<open>main\<close>, which the three scripts share up to the provider call:
  \<open>process_row\<close> is its body for one row, \<open>process_rows\<close> the loop over the rows.
  \<open>find_url query\<close> is that call: it answers with an exception that leaves \<open>main\<close>, or with
  the URL found, if any. \<open>build\<close> is the script's \<open>build_query\<close>. The state is the worksheet
  with the counters \<open>filled\<close> and \<open>skipped\<close>.
  \<^verbatim>\<open>
    for row in range(2, rows + 1):
        title_val = ws.cell(row=row, column=title_col).value
        if not title_val or not str(title_val).strip():
            skipped += 1; continue
        existing = ws.cell(row=row, column=image_col).value
        if existing and str(existing).strip():
            continue
        query = build_query(str(title_val), ws, row, col_index_by_name)
        url = find_url(query)
        if url:
            ws.cell(row=row, column=image_col, value=url); filled += 1
  \<close>
\<close>

definition process_row ::
  "(string \<Rightarrow> exn + string option) \<Rightarrow> (string \<Rightarrow> sheet \<Rightarrow> nat \<Rightarrow> (string \<rightharpoonup> nat) \<Rightarrow> string) \<Rightarrow>
   (string \<rightharpoonup> nat) \<Rightarrow> nat \<Rightarrow> nat \<Rightarrow> nat \<Rightarrow> sheet \<times> nat \<times> nat \<Rightarrow> exn + sheet \<times> nat \<times> nat" where
  "process_row find_url build col_map title_col image_col row st =
     (case st of (ws, filled, skipped) \<Rightarrow>
        (let title_val = cell_value ws (row, title_col) in
         if \<not> nonblank title_val then Inr (ws, filled, skipped + 1)
         else if nonblank (cell_value ws (row, image_col)) then Inr (ws, filled, skipped)
         else (case find_url (build (py_str title_val) ws row col_map) of
                 Inl e \<Rightarrow> Inl e
               | Inr url \<Rightarrow>
                   (if nonempty url
                    then Inr (set_cell ws row image_col (CStr (the url)), filled + 1, skipped)
                    else Inr (ws, filled, skipped)))))"

fun process_rows ::
  "(string \<Rightarrow> exn + string option) \<Rightarrow> (string \<Rightarrow> sheet \<Rightarrow> nat \<Rightarrow> (string \<rightharpoonup> nat) \<Rightarrow> string) \<Rightarrow>
   (string \<rightharpoonup> nat) \<Rightarrow> nat \<Rightarrow> nat \<Rightarrow> nat list \<Rightarrow> sheet \<times> nat \<times> nat \<Rightarrow> exn + sheet \<times> nat \<times> nat" where
  "process_rows find_url build col_map title_col image_col [] st = Inr st"
| "process_rows find_url build col_map title_col image_col (row # rows) st =
     (case process_row find_url build col_map title_col image_col row st of
        Inl e \<Rightarrow> Inl e
      | Inr st' \<Rightarrow> process_rows find_url build col_map title_col image_col rows st')"

text \<open>
  The body of the loop over the worksheets: the headers are ensured once, the two column
  indices are read from the returned map (a missing key would raise \<open>KeyError\<close>), and the
  rows \<open>2..ws.max_row\<close> are processed.
\<close>

definition process_sheet ::
  "(string \<Rightarrow> exn + string option) \<Rightarrow> (string \<Rightarrow> sheet \<Rightarrow> nat \<Rightarrow> (string \<rightharpoonup> nat) \<Rightarrow> string) \<Rightarrow>
   sheet \<Rightarrow> exn + sheet \<times> nat \<times> nat" where
  "process_sheet find_url build ws0 =
     (let (ws, col_map) = ensure_headers ws0 [TITLE_HEADER, IMAGE_HEADER] in
      case col_map TITLE_HEADER of
        None \<Rightarrow> Inl (KeyError TITLE_HEADER)
      | Some title_col \<Rightarrow>
          (case col_map IMAGE_HEADER of
             None \<Rightarrow> Inl (KeyError IMAGE_HEADER)
           | Some image_col \<Rightarrow>
               process_rows find_url build col_map title_col image_col [2..<max_row ws + 1] (ws, 0, 0)))"

text \<open>
  The loop over \<open>wb.worksheets\<close>, with the worksheets processed so far and the totals
  \<open>total_filled\<close> and \<open>total_skipped\<close>.
\<close>

fun process_sheets ::
  "(string \<Rightarrow> exn + string option) \<Rightarrow> (string \<Rightarrow> sheet \<Rightarrow> nat \<Rightarrow> (string \<rightharpoonup> nat) \<Rightarrow> string) \<Rightarrow>
   sheet list \<Rightarrow> sheet list \<times> nat \<times> nat \<Rightarrow> exn + sheet list \<times> nat \<times> nat" where
  "process_sheets find_url build [] st = Inr st"
| "process_sheets find_url build (ws # rest) (processed, total_filled, total_skipped) =
     (case process_sheet find_url build ws of
        Inl e \<Rightarrow> Inl e
      | Inr (ws', filled, skipped) \<Rightarrow>
          process_sheets find_url build rest (processed @ [ws'], total_filled + filled, total_skipped + skipped))"

section \<open>The three programs\<close>

text \<open>
  What a run of \<open>main\<close> ends in: the message that the input workbook was not found,
  after which \<open>main\<close> returns; an exception that nothing catches; or the workbook saved
  at the end of the pass, with the two totals printed. The input is \<open>None\<close> when
  \<^verbatim>\<open>os.path.exists(INPUT_XLSX)\<close> is false, and the loaded workbook otherwise.
  \<open>exit_status\<close> is the status the interpreter ends with: 0 when \<open>main\<close> returns, 1 after
  an uncaught exception.
\<close>

datatype outcome =
    InputNotFound
  | Uncaught exn
  | Saved "sheet list" nat nat

fun exit_status :: "outcome \<Rightarrow> nat" where
  "exit_status InputNotFound = 0"
| "exit_status (Uncaught e) = 1"
| "exit_status (Saved wb total_filled total_skipped) = 0"

definition run_pass ::
  "(string \<Rightarrow> exn + string option) \<Rightarrow> (string \<Rightarrow> sheet \<Rightarrow> nat \<Rightarrow> (string \<rightharpoonup> nat) \<Rightarrow> string) \<Rightarrow>
   sheet list \<Rightarrow> outcome" where
  "run_pass find_url build wb =
     (case process_sheets find_url build wb ([], 0, 0) of
        Inl e \<Rightarrow> Uncaught e
      | Inr (wb', total_filled, total_skipped) \<Rightarrow> Saved wb' total_filled total_skipped)"

definition bing_find ::
  "(string \<Rightarrow> nat \<Rightarrow> exn + string list response) \<Rightarrow> (string \<Rightarrow> int \<Rightarrow> exn + int) \<Rightarrow>
   string list \<Rightarrow> string \<Rightarrow> exn + string option" where
  "bing_find get head allowed_domains query =
     Inr (fst (bing_first_live_image get head allowed_domains query))"

definition main_bing ::
  "sheet list option \<Rightarrow> (string \<Rightarrow> nat \<Rightarrow> exn + string list response) \<Rightarrow>
   (string \<Rightarrow> int \<Rightarrow> exn + int) \<Rightarrow> string list \<Rightarrow> outcome" where
  "main_bing input get head allowed_domains =
     (case input of
        None \<Rightarrow> InputNotFound
      | Some wb \<Rightarrow> run_pass (bing_find get head allowed_domains) build_query wb)"

text \<open>
  \<open>resolve_google_key_and_cx\<close>: each of the two credentials is taken from the command
  line, else the environment, else the first line of its file, else the prompt. An
  interrupted prompt leaves the credential empty; an end of input raises \<open>EOFError\<close>.
\<close>

datatype prompt = Typed string | Interrupted | EndOfInput

record credential_source =
  cli_arg :: "string option"
  env_var :: "string option"
  file_lines :: "string list option"
  prompted :: prompt

definition from_args_env :: "credential_source \<Rightarrow> string" where
  "from_args_env src =
     strip (if nonempty (cli_arg src) then the (cli_arg src)
            else (case env_var src of None \<Rightarrow> [] | Some v \<Rightarrow> v))"

definition from_file :: "credential_source \<Rightarrow> string \<Rightarrow> string" where
  "from_file src v =
     (if v = []
      then (case file_lines src of
              None \<Rightarrow> v
            | Some [] \<Rightarrow> v
            | Some (line # _) \<Rightarrow> strip line)
      else v)"

definition from_prompt :: "credential_source \<Rightarrow> string \<Rightarrow> exn + string" where
  "from_prompt src v =
     (if v = []
      then (case prompted src of
              Typed s \<Rightarrow> Inr (strip s)
            | Interrupted \<Rightarrow> Inr v
            | EndOfInput \<Rightarrow> Inl EOFError)
      else Inr v)"

definition MISSING_CREDENTIALS_MESSAGE :: string where
  "MISSING_CREDENTIALS_MESSAGE =
     ''Missing credentials. Provide --key and --cx, or set env vars, or files google.key/google.cx.''"

definition resolve_google_key_and_cx ::
  "credential_source \<Rightarrow> credential_source \<Rightarrow> exn + string \<times> string" where
  "resolve_google_key_and_cx key_src cx_src =
     (let k = from_file key_src (from_args_env key_src);
          c = from_file cx_src (from_args_env cx_src)
      in case from_prompt key_src k of
           Inl e \<Rightarrow> Inl e
         | Inr k' \<Rightarrow>
             (case from_prompt cx_src c of
                Inl e \<Rightarrow> Inl e
              | Inr c' \<Rightarrow>
                  (if k' = [] \<or> c' = [] then Inl (RuntimeError MISSING_CREDENTIALS_MESSAGE)
                   else Inr (k', c'))))"

definition google_find ::
  "(google_params \<Rightarrow> nat \<Rightarrow> exn + (exn + string option list) response) \<Rightarrow>
   (string \<Rightarrow> int \<Rightarrow> exn + int) \<Rightarrow> string \<Rightarrow> string \<Rightarrow> string \<Rightarrow> exn + string option" where
  "google_find get head k c query =
     (case fst (google_image_search get k c query RESULTS_PER_QUERY) of
        Inl e \<Rightarrow> Inl e
      | Inr candidates \<Rightarrow> Inr (fst (first_live head candidates)))"

definition main_google ::
  "sheet list option \<Rightarrow> credential_source \<Rightarrow> credential_source \<Rightarrow>
   (google_params \<Rightarrow> nat \<Rightarrow> exn + (exn + string option list) response) \<Rightarrow>
   (string \<Rightarrow> int \<Rightarrow> exn + int) \<Rightarrow> outcome" where
  "main_google input key_src cx_src get head =
     (case input of
        None \<Rightarrow> InputNotFound
      | Some wb \<Rightarrow>
          (case resolve_google_key_and_cx key_src cx_src of
             Inl e \<Rightarrow> Uncaught e
           | Inr (k, c) \<Rightarrow> run_pass (google_find get head k c) build_query wb))"

definition pixabay_find ::
  "string \<Rightarrow> (string \<Rightarrow> exn + (exn + hit list) response) \<Rightarrow> (string \<Rightarrow> int \<Rightarrow> exn + int) \<Rightarrow>
   string \<Rightarrow> exn + string option" where
  "pixabay_find api_key get head query = fst (pixabay_first_image_url api_key get head query)"

definition main_pixabay ::
  "sheet list option \<Rightarrow> string \<Rightarrow> (string \<Rightarrow> exn + (exn + hit list) response) \<Rightarrow>
   (string \<Rightarrow> int \<Rightarrow> exn + int) \<Rightarrow> outcome" where
  "main_pixabay input api_key get head =
     (case input of
        None \<Rightarrow> InputNotFound
      | Some wb \<Rightarrow> run_pass (pixabay_find api_key get head) build_query_pixabay wb)"


section \<open>Vocabulary of the properties\<close>

text \<open>
  A token: a non-empty string without whitespace. \<open>first_occurrences ws\<close> follows the
  words of the specification: a token is removed if its case-insensitive form already
  occurred earlier in the sequence; the others stay, as they are written and in their
  order.
\<close>

definition token :: "string \<Rightarrow> bool" where
  "token t = (t \<noteq> [] \<and> list_all (\<lambda>c. \<not> isspace c) t)"


text \<open>
  The words of the specification for the allow-list: a host matches an entry when it
  equals the entry or is a subdomain of it, without regard to case.
\<close>

definition host_matches :: "string \<Rightarrow> string \<Rightarrow> bool" where
  "host_matches host d = (lower host = lower d \<or> suffix (CHR ''.'' # lower d) (lower host))"


definition usable :: "string list \<Rightarrow> (string \<Rightarrow> int \<Rightarrow> exn + int) \<Rightarrow> string \<Rightarrow> bool" where
  "usable allowed_domains head c = (domain_is_allowed allowed_domains c \<and> head_ok head c 10)"

text \<open>
  Concrete inputs for the examples: a worksheet with a \<open>Region\<close> column, a Bing result
  page, the probe of its candidates, an answer of the Google API and of the Pixabay API
  with the same live URL, a credential given on the command line, and answers with
  status 429.
\<close>

definition region_sheet :: sheet where
  "region_sheet =
     set_cell (set_cell (set_cell (set_cell (set_cell empty_sheet
       1 1 (CStr ''Title'')) 1 2 (CStr ''Image'')) 1 3 (CStr ''Region''))
       2 1 (CStr ''Visa India'')) 2 3 (CStr ''india'')"

definition example_get :: "string \<Rightarrow> nat \<Rightarrow> exn + string list response" where
  "example_get query first =
     (if first = 1 then Inr \<lparr>status_code = 200, body = [''deadurl1'', ''liveurl2'', ''liveurl3'']\<rparr>
      else Inl RequestException)"

definition example_head :: "string \<Rightarrow> int \<Rightarrow> exn + int" where
  "example_head url timeout = (if url = ''deadurl1'' then Inr 404 else Inr 200)"




definition always_429 :: "google_params \<Rightarrow> nat \<Rightarrow> exn + (exn + string option list) response" where
  "always_429 params attempt = Inr \<lparr>status_code = 429, body = Inr [Some ''liveurl1'']\<rparr>"

definition bing_429 :: "string \<Rightarrow> nat \<Rightarrow> exn + string list response" where
  "bing_429 query first = Inr \<lparr>status_code = 429, body = []\<rparr>"

text \<open>
  The two parts of \<open>ensure_headers\<close> before it adds anything: the column count it starts
  from (\<^verbatim>\<open>ws.max_column or 1\<close>) and the map its first loop reads from row 1.
\<close>

definition effective_max_column :: "sheet \<Rightarrow> nat" where
  "effective_max_column ws = (if max_column ws = 0 then 1 else max_column ws)"

definition headers_read :: "sheet \<Rightarrow> (string \<rightharpoonup> nat)" where
  "headers_read ws = read_headers ws [1..<effective_max_column ws + 1] Map.empty"

text \<open>
  The words of the specification for the place of a new header: the last column of row 1
  that holds a value (0 when the row is empty).
\<close>

definition last_populated_header :: "sheet \<Rightarrow> nat" where
  "last_populated_header ws =
     fold max (filter (\<lambda>c. cell_value ws (1, c) \<noteq> CNone) [1..<max_column ws + 1]) 0"

text \<open>
  Example worksheets. \<open>gap_sheet\<close> has the header \<open>Title\<close> and a value in column 3 of
  row 2; \<open>zero_sheet\<close> has both headers and a row whose image cell holds the number 0;
  \<open>filled_sheet\<close> has both headers, a row with an image and a row without;
  \<open>refilled_sheet\<close> is \<open>filled_sheet\<close> after the pass that fills its last row.
  \<open>no_credential\<close> is a credential that no source provides.
\<close>

definition gap_sheet :: sheet where
  "gap_sheet = set_cell (set_cell empty_sheet 1 1 (CStr ''Title'')) 2 3 (CStr ''x'')"


definition filled_sheet :: sheet where
  "filled_sheet =
     set_cell (set_cell (set_cell (set_cell (set_cell (set_cell empty_sheet
       1 1 (CStr ''Title'')) 1 2 (CStr ''Image'')) 2 1 (CStr ''Visa'')) 2 2 (CStr ''http://old/a.png''))
       3 1 (CStr ''Amazon'')) 3 2 CNone"

definition refilled_sheet :: sheet where
  "refilled_sheet = set_cell filled_sheet 3 2 (CStr ''liveurl2'')"

definition no_credential :: credential_source where
  "no_credential = \<lparr>cli_arg = None, env_var = None, file_lines = None, prompted = Interrupted\<rparr>"

section \<open>Splitting and joining\<close>

lemma split_acc_tokens:
  "list_all (\<lambda>c. \<not> isspace c) w \<Longrightarrow> list_all token (split_acc w s)"
  by (induction s arbitrary: w) (auto simp: token_def)

lemma split_tokens: "list_all token (split s)"
  by (simp add: split_def split_acc_tokens)

lemma split_acc_append_token:
  "list_all (\<lambda>c. \<not> isspace c) t \<Longrightarrow> split_acc w (t @ s) = split_acc (w @ t) s"
  by (induction t arbitrary: w) auto

lemma isspace_space: "isspace CHR '' ''"
  by (simp add: isspace_def)

lemma join_Cons: "join sep (x # xs) = (if xs = [] then x else x @ sep @ join sep xs)"
  by (cases xs) simp_all

lemma split_acc_join:
  "list_all token ts \<Longrightarrow> split_acc [] (join '' '' ts) = ts"
proof (induction ts)
  case Nil
  show ?case by simp
next
  case (Cons x ts)
  then have tx: "token x" and rest: "list_all token ts"
    by simp_all
  from tx have x: "x \<noteq> []" "list_all (\<lambda>c. \<not> isspace c) x"
    by (simp_all add: token_def)
  show ?case
  proof (cases "ts = []")
    case True
    have "split_acc [] (x @ []) = split_acc x []"
      using split_acc_append_token[OF x(2), of "[]" "[]"] by simp
    with True x(1) show ?thesis by simp
  next
    case False
    have "split_acc [] (x @ '' '' @ join '' '' ts) = split_acc x ('' '' @ join '' '' ts)"
      using split_acc_append_token[OF x(2), of "[]"] by simp
    also have "\<dots> = x # split_acc [] (join '' '' ts)"
      using x(1) by (simp add: isspace_space)
    finally show ?thesis using False Cons.IH rest by (simp add: join_Cons)
  qed
qed

lemma split_join: "list_all token ts \<Longrightarrow> split (join '' '' ts) = ts"
  by (simp add: split_def split_acc_join)

section \<open>The de-duplication loop\<close>

lemma dedupe_loop_out: "dedupe_loop ws seen out = out @ dedupe_loop ws seen []"
proof (induction ws arbitrary: seen out)
  case Nil
  show ?case by simp
next
  case (Cons w ws)
  show ?case
    using Cons.IH[of seen out] Cons.IH[of "insert (lower w) seen" "out @ [w]"]
      Cons.IH[of "insert (lower w) seen" "[w]"]
    by (simp add: Let_def)
qed

lemma dedupe_loop_Cons:
  "dedupe_loop (w # ws) seen [] =
     (if lower w \<in> seen then dedupe_loop ws seen []
      else w # dedupe_loop ws (insert (lower w) seen) [])"
  using dedupe_loop_out[of ws "insert (lower w) seen" "[w]"] by (simp add: Let_def)

lemma dedupe_loop_subseq: "subseq (dedupe_loop ws seen []) ws"
  by (induction ws arbitrary: seen)
     (auto simp: dedupe_loop_Cons simp del: dedupe_loop.simps(2))

lemma dedupe_loop_fresh: "v \<in> set (dedupe_loop ws seen []) \<Longrightarrow> lower v \<notin> seen"
  by (induction ws arbitrary: seen)
     (auto simp: dedupe_loop_Cons simp del: dedupe_loop.simps(2) split: if_splits)

lemma dedupe_loop_distinct: "distinct (map lower (dedupe_loop ws seen []))"
  by (induction ws arbitrary: seen)
     (auto simp: dedupe_loop_Cons simp del: dedupe_loop.simps(2) dest: dedupe_loop_fresh)

lemma dedupe_loop_fixed:
  "distinct (map lower ws) \<Longrightarrow> lower ` set ws \<inter> seen = {} \<Longrightarrow> dedupe_loop ws seen [] = ws"
  by (induction ws arbitrary: seen)
     (auto simp: dedupe_loop_Cons simp del: dedupe_loop.simps(2))

lemma dedupe_loop_tokens: "list_all token ws \<Longrightarrow> list_all token (dedupe_loop ws seen [])"
  using dedupe_loop_subseq[of ws seen] by (auto simp: list_all_iff dest: list_emb_set)

lemma split_dedupe_words: "split (dedupe_words s) = dedupe_loop (split s) {} []"
  by (simp add: dedupe_words_def split_join dedupe_loop_tokens split_tokens)




text \<open>
  Claim C10. \<open>dedupe_words\<close> is idempotent: applied to its own output it returns that
  output unchanged; and the tokens of its output are a subsequence of the
  whitespace-split tokens of its input.
\<close>

theorem dedupe_words_idempotent:
  "dedupe_words (dedupe_words s) = dedupe_words s
   \<and> subseq (split (dedupe_words s)) (split s)"
proof
  have "dedupe_loop (split (dedupe_words s)) {} [] = split (dedupe_words s)"
    by (rule dedupe_loop_fixed) (simp_all add: split_dedupe_words dedupe_loop_distinct)
  then show "dedupe_words (dedupe_words s) = dedupe_words s"
    by (simp add: dedupe_words_def[of "dedupe_words s"] split_dedupe_words)
       (simp add: dedupe_words_def)
  show "subseq (split (dedupe_words s)) (split s)"
    by (simp add: split_dedupe_words dedupe_loop_subseq)
qed

lemma dedupe_words_example:
  "dedupe_words ''Aeropostale India India Global'' = ''Aeropostale India Global''"
  by (simp add: dedupe_words_def split_def isspace_def lower_def lower_char_def latin1_upper_def latin1_lower_def)

section \<open>Query construction: properties\<close>


text \<open>The region of row 2 of the example sheet.\<close>

lemma region_sheet_cells:
  "cell_value region_sheet (2, 3) = CStr ''india''"
  by (simp add: region_sheet_def set_cell_def empty_sheet_def)


text \<open>The example of the specification: a region given twice, in two casings.\<close>

lemma spec_query_example:
  "dedupe_words (join '' '' [''Visa Gift Card'', ''India'', ''india'']) = ''Visa Gift Card India''"
  by (simp add: dedupe_words_def split_def isspace_def lower_def lower_char_def latin1_upper_def latin1_lower_def)

lemma build_query_example:
  "build_query ''Visa India'' region_sheet 2 [''Title'' \<mapsto> 1, ''Image'' \<mapsto> 2, ''Region'' \<mapsto> 3]
     = ''Visa India''"
  by (simp add: build_query_def dedupe_words_def query_bits_def OPTIONAL_QUERY_COLUMNS_def region_sheet_cells
        nonblank_def strip_def isspace_def split_def lower_def lower_char_def latin1_upper_def latin1_lower_def)

section \<open>Liveness and admissibility\<close>

text \<open>
  Claim C6. For every URL and timeout, \<open>head_ok\<close> returns true if and only if the probe
  answers with a status code in the range 200 to 399 inclusive; a probe that ends in an
  exception (network error, timeout, malformed URL) makes it return false, and no exception
  leaves \<open>head_ok\<close>: its result is always a boolean.
\<close>

theorem head_ok_iff_status:
  "head_ok head url timeout = (\<exists>code. head url timeout = Inr code \<and> 200 \<le> code \<and> code \<le> 399)
   \<and> \<not> head_ok (\<lambda>u t. Inl e) url timeout"
  by (auto simp: head_ok_def split: sum.splits)

lemma domain_is_allowed_iff:
  "domain_is_allowed allowed_domains url =
     (allowed_domains = [] \<or>
      (\<exists>netloc. urlparse_netloc url = Inr netloc
         \<and> (\<exists>d \<in> set allowed_domains. suffix (lower d) (lower netloc))))"
  by (auto simp: domain_is_allowed_def endswith_def list_ex_iff split: sum.splits)

lemmas url_eval = domain_is_allowed_def urlparse_netloc_def split_scheme_def scheme_chars_def
  ascii_letters_def lower_def lower_char_def latin1_upper_def latin1_lower_def endswith_def suffix_to_prefix

lemma allow_list_examples:
  "domain_is_allowed [''example.com''] ''https://cdn.example.com/a.png''"
  "\<not> domain_is_allowed [''example.com''] ''https://img.cdn.other.com/a.png''"
  "domain_is_allowed [''Example.COM''] ''https://CDN.example.com/a.png''"
  "domain_is_allowed [] url"
  by (simp_all add: url_eval)

lemma bracketed_host_examples:
  "urlparse_netloc ''http://[::1]:8080/a.png'' = Inr ''[::1]:8080''"
  "urlparse_netloc ''http://[example.com]/a.png'' = Inl ValueError"
  "\<not> domain_is_allowed [''example.com''] ''http://[example.com]/a.png''"
  by code_simp+

text \<open>
  Claim C3, at the input where the code departs from it. With the allow-list
  \<open>example.com\<close>, the URL \<open>http://notexample.com/logo.png\<close> is accepted although its host
  \<open>notexample.com\<close> neither equals \<open>example.com\<close> nor is a subdomain of it, and
  \<open>http://example.com:8080/logo.png\<close> is rejected although its host equals the entry: the
  check is a plain string-suffix test on the network location, port included.
\<close>

theorem domain_is_allowed_plain_suffix:
  "domain_is_allowed [''example.com''] ''http://notexample.com/logo.png''
   \<and> urlparse_netloc ''http://notexample.com/logo.png'' = Inr ''notexample.com''
   \<and> \<not> host_matches ''notexample.com'' ''example.com''
   \<and> \<not> domain_is_allowed [''example.com''] ''http://example.com:8080/logo.png''
   \<and> host_matches ''example.com'' ''example.com''"
  by (simp add: url_eval host_matches_def)

section \<open>Resolution stops at the first usable candidate\<close>


lemma first_live_candidate_Cons:
  "first_live_candidate head allowed_domains (c # cs) =
     (if \<not> domain_is_allowed allowed_domains c then first_live_candidate head allowed_domains cs
      else if head_ok head c 10 then (Some c, [Probe c])
      else (fst (first_live_candidate head allowed_domains cs),
            Probe c # snd (first_live_candidate head allowed_domains cs)))"
  by (simp add: after_def)


lemma bing_pages_loop_Cons:
  "bing_pages_loop get head allowed_domains query (first # rest) =
     (let later = bing_pages_loop get head allowed_domains query rest in
      case get query first of
        Inl e \<Rightarrow> (fst later, Request first # snd later)
      | Inr r \<Rightarrow>
          if raise_for_status r then (fst later, Request first # snd later)
          else (let page = first_live_candidate head allowed_domains (body r) in
                if fst page = None
                then (fst later, Request first # snd page @ [Sleep 300] @ snd later)
                else (fst page, Request first # snd page)))"
  by (auto simp: after_def Let_def split: sum.splits option.splits prod.splits)


text \<open>
  The probes of one page: the admissible candidates before the first usable one, in their
  order, then that one.
\<close>

lemma first_live_candidate_trace:
  "snd (first_live_candidate head allowed_domains cs) =
     map Probe (filter (domain_is_allowed allowed_domains)
                  (takeWhile (\<lambda>c. \<not> usable allowed_domains head c) cs))
     @ (case find (usable allowed_domains head) cs of None \<Rightarrow> [] | Some c \<Rightarrow> [Probe c])"
  by (induction cs)
     (simp_all add: first_live_candidate_Cons usable_def del: first_live_candidate.simps(2))









section \<open>Rate limits\<close>

lemma google_image_search_429:
  assumes "get \<lparr>key = k, cx = c, q = query, num = min (max 1 n) 10\<rparr> 0 = Inr r"
    and "status_code r = 429"
  shows "snd (google_image_search get k c query n) = [Request 0, Sleep 2000, Request 1]"
    and "(case get \<lparr>key = k, cx = c, q = query, num = min (max 1 n) 10\<rparr> 1 of
            Inl e \<Rightarrow> True | Inr r2 \<Rightarrow> raise_for_status r2)
         \<Longrightarrow> fst (google_image_search get k c query n) = Inr []"
  using assms by (auto simp: google_image_search_def Let_def split: sum.splits)

lemma google_image_search_no_429:
  assumes "get \<lparr>key = k, cx = c, q = query, num = min (max 1 n) 10\<rparr> 0 = Inr r"
    and "status_code r \<noteq> 429"
  shows "snd (google_image_search get k c query n) = [Request 0]"
  using assms by (auto simp: google_image_search_def Let_def split: sum.splits)

lemma bing_page_429:
  assumes "get query first = Inr r" and "status_code r = 429"
  shows "bing_pages_loop get head allowed_domains query (first # rest) =
           (fst (bing_pages_loop get head allowed_domains query rest),
            Request first # snd (bing_pages_loop get head allowed_domains query rest))"
  using assms by (simp add: bing_pages_loop_Cons Let_def raise_for_status_def del: bing_pages_loop.simps(2))

lemma pixabay_429:
  assumes "get query = Inr r" and "status_code r = 429" and "api_key \<noteq> []"
  shows "pixabay_first_image_url api_key get head query = (Inr None, [Request 1])"
  using assms by (simp add: pixabay_first_image_url_def raise_for_status_def)

text \<open>
  Claim C7, as amended. In the Google provider call a response with status 429 to the first
  request triggers exactly one wait of two seconds followed by exactly one retry of the same
  request; if the retry ends in an exception or in an error status (429 included), the call
  yields an empty candidate sequence, with no further retry; a first response with another
  status is never retried. The Bing and Pixabay provider calls have no rate-limit handling:
  a page answered with status 429 is an ordinary failure at once (Bing passes on to the
  next page, Pixabay returns no result), with no wait and no retry.
\<close>

theorem rate_limit_retry_google_only:
  "(\<forall>r. get \<lparr>key = k, cx = c, q = query, num = min (max 1 n) 10\<rparr> 0 = Inr r \<and> status_code r = 429 \<longrightarrow>
      snd (google_image_search get k c query n) = [Request 0, Sleep 2000, Request 1]
      \<and> ((case get \<lparr>key = k, cx = c, q = query, num = min (max 1 n) 10\<rparr> 1 of
             Inl e \<Rightarrow> True | Inr r2 \<Rightarrow> raise_for_status r2)
           \<longrightarrow> fst (google_image_search get k c query n) = Inr []))
   \<and> (\<forall>r. get \<lparr>key = k, cx = c, q = query, num = min (max 1 n) 10\<rparr> 0 = Inr r \<and> status_code r \<noteq> 429 \<longrightarrow>
      snd (google_image_search get k c query n) = [Request 0])
   \<and> (\<forall>r. bget query first = Inr r \<and> status_code r = 429 \<longrightarrow>
      bing_pages_loop bget head allowed_domains query (first # rest) =
        (fst (bing_pages_loop bget head allowed_domains query rest),
         Request first # snd (bing_pages_loop bget head allowed_domains query rest)))
   \<and> (\<forall>r. pget query = Inr r \<and> status_code r = 429 \<and> api_key \<noteq> [] \<longrightarrow>
      pixabay_first_image_url api_key pget head query = (Inr None, [Request 1]))"
  using google_image_search_429[of get k c query n] google_image_search_no_429[of get k c query n]
    bing_page_429[of bget query first _ head allowed_domains rest]
    pixabay_429[of pget query _ api_key head]
  by blast

text \<open>A provider that answers every request with status 429.\<close>

theorem rate_limit_retry_google_only_witness:
  "google_image_search always_429 ''k'' ''c'' ''visa'' 10 = (Inr [], [Request 0, Sleep 2000, Request 1])
   \<and> bing_pages_loop bing_429 example_head [] ''visa'' [1] = (None, [Request 1])
   \<and> pixabay_first_image_url ''k'' (\<lambda>query. Inr \<lparr>status_code = 429, body = Inr []\<rparr>) example_head ''visa''
       = (Inr None, [Request 1])"
  using rate_limit_retry_google_only[of always_429 "''k''" "''c''" "''visa''" 10 bing_429 1
      example_head "[]" "[]" "\<lambda>query. Inr \<lparr>status_code = 429, body = Inr []\<rparr>" "''k''"]
  by (simp add: always_429_def bing_429_def raise_for_status_def prod_eq_iff
        google_image_search_def)

text \<open>
  Claim C7 as stated fails for the Bing script: when every page is answered with status
  429, each page is requested once and there is no wait and no retry.
\<close>

theorem bing_429_no_wait_no_retry:
  "snd (bing_first_live_image bing_429 example_head [] ''visa'') = [Request 1, Request 11]"
  by (simp add: bing_first_live_image_def BING_PAGES_FIRST_PARAMS_def after_def bing_429_def raise_for_status_def)

section \<open>Worksheets and headers\<close>

lemma cell_value_set_cell [simp]:
  "cell_value (set_cell ws r c v) p = (if p = (r, c) then v else cell_value ws p)"
  by (simp add: set_cell_def)

lemma max_row_set_cell [simp]: "max_row (set_cell ws r c v) = max (max_row ws) r"
  by (simp add: set_cell_def)

lemma max_column_set_cell [simp]: "max_column (set_cell ws r c v) = max (max_column ws) c"
  by (simp add: set_cell_def)

lemma writes_set_cell [simp]: "writes (set_cell ws r c v) = writes ws @ [(r, c)]"
  by (simp add: set_cell_def)

lemma title_not_image: "TITLE_HEADER \<noteq> IMAGE_HEADER"
  by (simp add: TITLE_HEADER_def IMAGE_HEADER_def)

lemma strip_headers: "strip TITLE_HEADER = TITLE_HEADER" "strip IMAGE_HEADER = IMAGE_HEADER"
  "TITLE_HEADER \<noteq> []" "IMAGE_HEADER \<noteq> []"
  by (simp_all add: TITLE_HEADER_def IMAGE_HEADER_def strip_def isspace_def)

lemma effective_max_column_pos: "1 \<le> effective_max_column ws"
  by (simp add: effective_max_column_def)

lemma effective_max_column_set_cell [simp]:
  "effective_max_column (set_cell ws r c v) = max (effective_max_column ws) c"
  by (simp add: effective_max_column_def max_def)

lemma ensure_headers_cases:
  "ensure_headers ws [TITLE_HEADER, IMAGE_HEADER] =
     (let mc = effective_max_column ws; ex = headers_read ws in
      if ex TITLE_HEADER = None
      then (if ex IMAGE_HEADER = None
            then (set_cell (set_cell ws 1 (mc + 1) (CStr TITLE_HEADER)) 1 (mc + 2) (CStr IMAGE_HEADER),
                  ex(TITLE_HEADER \<mapsto> mc + 1, IMAGE_HEADER \<mapsto> mc + 2))
            else (set_cell ws 1 (mc + 1) (CStr TITLE_HEADER), ex(TITLE_HEADER \<mapsto> mc + 1)))
      else (if ex IMAGE_HEADER = None
            then (set_cell ws 1 (mc + 1) (CStr IMAGE_HEADER), ex(IMAGE_HEADER \<mapsto> mc + 1))
            else (ws, ex)))"
  using title_not_image
  by (auto simp: ensure_headers_def effective_max_column_def headers_read_def Let_def)

lemma read_headers_cong:
  "(\<And>c. c \<in> set cols \<Longrightarrow> cell_value ws (1, c) = cell_value ws' (1, c)) \<Longrightarrow>
     read_headers ws cols ex = read_headers ws' cols ex"
  by (induction cols arbitrary: ex) (auto split: cell.splits)

lemma read_headers_append:
  "read_headers ws (xs @ ys) ex = read_headers ws ys (read_headers ws xs ex)"
  by (induction xs arbitrary: ex) (auto split: cell.splits)

lemma read_headers_bound:
  "read_headers ws cols ex h = Some c \<Longrightarrow> ex h = Some c \<or> c \<in> set cols"
proof (induction cols arbitrary: ex)
  case Nil
  then show ?case by simp
next
  case (Cons a cols)
  show ?case
  proof (cases "cell_value ws (1, a)")
    case (CStr val)
    show ?thesis
    proof (cases "strip val = []")
      case True
      with CStr Cons.prems Cons.IH[of ex] show ?thesis by auto
    next
      case False
      with CStr Cons.prems have "read_headers ws cols (ex(strip val \<mapsto> a)) h = Some c"
        by simp
      from Cons.IH[OF this] show ?thesis by (auto split: if_splits)
    qed
  qed (use Cons.prems Cons.IH[of ex] in auto)
qed

lemma headers_read_bound:
  "headers_read ws h = Some c \<Longrightarrow> 1 \<le> c \<and> c \<le> effective_max_column ws"
  using read_headers_bound[of ws "[1..<effective_max_column ws + 1]" Map.empty h c]
  by (auto simp: headers_read_def)

lemma read_headers_cell:
  "read_headers ws cols ex h = Some c \<Longrightarrow>
     ex h = Some c \<or> (c \<in> set cols \<and> (\<exists>s. cell_value ws (1, c) = CStr s \<and> strip s = h))"
proof (induction cols arbitrary: ex)
  case Nil
  then show ?case by simp
next
  case (Cons a cols)
  show ?case
  proof (cases "cell_value ws (1, a)")
    case (CStr val)
    show ?thesis
    proof (cases "strip val = []")
      case True
      with CStr Cons.prems Cons.IH[of ex] show ?thesis by auto
    next
      case False
      with CStr Cons.prems have "read_headers ws cols (ex(strip val \<mapsto> a)) h = Some c"
        by simp
      from Cons.IH[OF this] CStr show ?thesis by (auto split: if_splits)
    qed
  qed (use Cons.prems Cons.IH[of ex] in auto)
qed

lemma headers_read_cell:
  "headers_read ws h = Some c \<Longrightarrow> \<exists>s. cell_value ws (1, c) = CStr s \<and> strip s = h"
  using read_headers_cell[of ws "[1..<effective_max_column ws + 1]" Map.empty h c]
  by (auto simp: headers_read_def)

lemma headers_read_distinct:
  "headers_read ws h = Some c \<Longrightarrow> headers_read ws h' = Some c' \<Longrightarrow> h \<noteq> h' \<Longrightarrow> c \<noteq> c'"
  using headers_read_cell[of ws h c] headers_read_cell[of ws h' c'] by auto

lemma ensure_headers_columns:
  assumes "ensure_headers ws0 [TITLE_HEADER, IMAGE_HEADER] = (ws, col_map)"
  shows "\<exists>title_col image_col. col_map TITLE_HEADER = Some title_col
           \<and> col_map IMAGE_HEADER = Some image_col \<and> title_col \<noteq> image_col
           \<and> 1 \<le> image_col \<and> image_col \<le> effective_max_column ws"
proof -
  note eq = assms[unfolded ensure_headers_cases Let_def]
  show ?thesis
  proof (cases "headers_read ws0 TITLE_HEADER")
    case tn: None
    show ?thesis
    proof (cases "headers_read ws0 IMAGE_HEADER")
      case None
      with tn eq show ?thesis
        using title_not_image effective_max_column_pos[of ws0] by auto
    next
      case (Some ic)
      with tn eq headers_read_bound[OF Some] show ?thesis
        using title_not_image effective_max_column_pos[of ws0] by auto
    qed
  next
    case ts: (Some tc)
    show ?thesis
    proof (cases "headers_read ws0 IMAGE_HEADER")
      case None
      with ts eq headers_read_bound[OF ts] show ?thesis
        using title_not_image effective_max_column_pos[of ws0] by auto
    next
      case (Some ic)
      with ts eq headers_read_bound[OF Some] headers_read_distinct[OF ts Some title_not_image]
      show ?thesis by auto
    qed
  qed
qed

lemma ensure_headers_frame:
  assumes "ensure_headers ws0 [TITLE_HEADER, IMAGE_HEADER] = (ws, col_map)"
  shows "\<exists>new. writes ws = writes ws0 @ new \<and> (\<forall>p \<in> set new. fst p = 1)
            \<and> (\<forall>r c. r \<noteq> 1 \<longrightarrow> cell_value ws (r, c) = cell_value ws0 (r, c))"
  using assms[unfolded ensure_headers_cases Let_def] by (auto split: if_splits)

section \<open>The row loop\<close>

lemma process_row_cases:
  assumes "process_row find_url build col_map title_col image_col row (ws, filled, skipped) = Inr (ws', filled', skipped')"
  shows "(ws' = ws \<and> filled' = filled \<and> skipped' = skipped + 1
            \<and> \<not> nonblank (cell_value ws (row, title_col)))
       \<or> (ws' = ws \<and> filled' = filled \<and> skipped' = skipped
            \<and> nonblank (cell_value ws (row, title_col)) \<and> nonblank (cell_value ws (row, image_col)))
       \<or> (ws' = ws \<and> filled' = filled \<and> skipped' = skipped
            \<and> nonblank (cell_value ws (row, title_col)) \<and> \<not> nonblank (cell_value ws (row, image_col))
            \<and> (\<exists>url. find_url (build (py_str (cell_value ws (row, title_col))) ws row col_map) = Inr url
                  \<and> \<not> nonempty url))
       \<or> (\<exists>u. ws' = set_cell ws row image_col (CStr u) \<and> filled' = filled + 1 \<and> skipped' = skipped
            \<and> nonblank (cell_value ws (row, title_col)) \<and> \<not> nonblank (cell_value ws (row, image_col))
            \<and> find_url (build (py_str (cell_value ws (row, title_col))) ws row col_map) = Inr (Some u)
            \<and> u \<noteq> [])"
  using assms
  by (auto simp: process_row_def Let_def nonempty_def split: if_splits sum.splits option.splits)

lemma process_rows_cells:
  "process_rows find_url build col_map title_col image_col rows (ws, filled, skipped) = Inr (ws', filled', skipped')
   \<Longrightarrow> c \<noteq> image_col \<or> r \<notin> set rows \<or> nonblank (cell_value ws (r, image_col))
   \<Longrightarrow> cell_value ws' (r, c) = cell_value ws (r, c)"
proof (induction rows arbitrary: ws filled skipped)
  case Nil
  then show ?case by simp
next
  case (Cons row rows)
  from Cons.prems(1) obtain ws2 f2 s2 where
    step: "process_row find_url build col_map title_col image_col row (ws, filled, skipped) = Inr (ws2, f2, s2)"
    and rest: "process_rows find_url build col_map title_col image_col rows (ws2, f2, s2) = Inr (ws', filled', skipped')"
    by (auto split: sum.splits)
  from process_row_cases[OF step]
  have same: "cell_value ws2 (r, c) = cell_value ws (r, c)"
    and keep: "nonblank (cell_value ws (r, image_col)) \<Longrightarrow> nonblank (cell_value ws2 (r, image_col))"
    using Cons.prems(2) by auto
  from Cons.prems(2) keep
  have "c \<noteq> image_col \<or> r \<notin> set rows \<or> nonblank (cell_value ws2 (r, image_col))" by auto
  from Cons.IH[OF rest this] same show ?case by simp
qed

lemma process_rows_writes:
  "process_rows find_url build col_map title_col image_col rows (ws, filled, skipped) = Inr (ws', filled', skipped')
   \<Longrightarrow> \<exists>new. writes ws' = writes ws @ new \<and> length new + filled = filled'
         \<and> (\<forall>p \<in> set new. snd p = image_col \<and> fst p \<in> set rows \<and> \<not> nonblank (cell_value ws p))"
proof (induction rows arbitrary: ws filled skipped)
  case Nil
  then show ?case by simp
next
  case (Cons row rows)
  from Cons.prems(1) obtain ws2 f2 s2 where
    step: "process_row find_url build col_map title_col image_col row (ws, filled, skipped) = Inr (ws2, f2, s2)"
    and rest: "process_rows find_url build col_map title_col image_col rows (ws2, f2, s2) = Inr (ws', filled', skipped')"
    by (auto split: sum.splits)
  from Cons.IH[OF rest] obtain new where new: "writes ws' = writes ws2 @ new" "length new + f2 = filled'"
    "\<forall>p \<in> set new. snd p = image_col \<and> fst p \<in> set rows \<and> \<not> nonblank (cell_value ws2 p)"
    by blast
  from process_row_cases[OF step]
  consider (same) "ws2 = ws" "f2 = filled"
    | (wrote) u where "ws2 = set_cell ws row image_col (CStr u)" "f2 = filled + 1"
        "\<not> nonblank (cell_value ws (row, image_col))"
    by auto
  then show ?case
  proof cases
    case same
    with new show ?thesis by auto
  next
    case wrote
    have "\<forall>p \<in> set ((row, image_col) # new).
        snd p = image_col \<and> fst p \<in> set (row # rows) \<and> \<not> nonblank (cell_value ws p)"
      using new(3) wrote by (auto split: if_splits)
    moreover have "writes ws' = writes ws @ ((row, image_col) # new)"
      using new(1) wrote by simp
    moreover have "length ((row, image_col) # new) + filled = filled'"
      using new(2) wrote by simp
    ultimately show ?thesis by blast
  qed
qed

lemma process_rows_dims:
  "process_rows find_url build col_map title_col image_col rows (ws, filled, skipped) = Inr (ws', filled', skipped')
   \<Longrightarrow> \<forall>r \<in> set rows. r \<le> max_row ws
   \<Longrightarrow> max_row ws' = max_row ws
       \<and> max_column ws' = (if filled' = filled then max_column ws else max (max_column ws) image_col)
       \<and> filled \<le> filled'"
proof (induction rows arbitrary: ws filled skipped)
  case Nil
  then show ?case by simp
next
  case (Cons row rows)
  from Cons.prems(1) obtain ws2 f2 s2 where
    step: "process_row find_url build col_map title_col image_col row (ws, filled, skipped) = Inr (ws2, f2, s2)"
    and rest: "process_rows find_url build col_map title_col image_col rows (ws2, f2, s2) = Inr (ws', filled', skipped')"
    by (auto split: sum.splits)
  from process_row_cases[OF step] Cons.prems(2)
  have dims2: "max_row ws2 = max_row ws"
    "max_column ws2 = (if f2 = filled then max_column ws else max (max_column ws) image_col)"
    "filled \<le> f2"
    by (auto simp: max_def)
  with Cons.prems(2) have "\<forall>r \<in> set rows. r \<le> max_row ws2" by simp
  from Cons.IH[OF rest this] dims2 show ?case by (auto simp: max_def split: if_splits)
qed

lemma process_sheet_rows:
  assumes "ensure_headers ws0 [TITLE_HEADER, IMAGE_HEADER] = (ws, col_map)"
    and "col_map TITLE_HEADER = Some title_col" and "col_map IMAGE_HEADER = Some image_col"
  shows "process_sheet find_url build ws0 =
           process_rows find_url build col_map title_col image_col [2..<max_row ws + 1] (ws, 0, 0)"
  using assms by (simp add: process_sheet_def)

lemma process_sheet_present:
  assumes "headers_read ws TITLE_HEADER = Some title_col"
    and "headers_read ws IMAGE_HEADER = Some image_col"
  shows "process_sheet find_url build ws =
           process_rows find_url build (headers_read ws) title_col image_col
             [2..<max_row ws + 1] (ws, 0, 0)"
proof -
  from assms have "ensure_headers ws [TITLE_HEADER, IMAGE_HEADER] = (ws, headers_read ws)"
    by (simp add: ensure_headers_cases)
  from process_sheet_rows[OF this assms] show ?thesis .
qed

lemma process_sheets_results:
  "process_sheets find_url build wb (processed, total_filled, total_skipped) = Inr (wb', total_filled', total_skipped')
   \<Longrightarrow> \<exists>rs. map (process_sheet find_url build) wb = map Inr rs
          \<and> wb' = processed @ map fst rs
          \<and> total_filled' = total_filled + sum_list (map (\<lambda>r. fst (snd r)) rs)
          \<and> total_skipped' = total_skipped + sum_list (map (\<lambda>r. snd (snd r)) rs)"
proof (induction wb arbitrary: processed total_filled total_skipped)
  case Nil
  then show ?case by simp
next
  case (Cons ws rest)
  from Cons.prems obtain ws1 f1 s1 where
    one: "process_sheet find_url build ws = Inr (ws1, f1, s1)"
    and more: "process_sheets find_url build rest (processed @ [ws1], total_filled + f1, total_skipped + s1)
        = Inr (wb', total_filled', total_skipped')"
    by (auto split: sum.splits)
  from Cons.IH[OF more] obtain rs where rs:
    "map (process_sheet find_url build) rest = map Inr rs"
    "wb' = (processed @ [ws1]) @ map fst rs"
    "total_filled' = total_filled + f1 + sum_list (map (\<lambda>r. fst (snd r)) rs)"
    "total_skipped' = total_skipped + s1 + sum_list (map (\<lambda>r. snd (snd r)) rs)"
    by blast
  show ?case
    by (rule exI[of _ "(ws1, f1, s1) # rs"]) (use one rs in simp)
qed

lemma process_sheets_from_results:
  "map (process_sheet find_url build) wb = map Inr rs \<Longrightarrow>
     process_sheets find_url build wb (processed, total_filled, total_skipped) =
       Inr (processed @ map fst rs,
            total_filled + sum_list (map (\<lambda>r. fst (snd r)) rs),
            total_skipped + sum_list (map (\<lambda>r. snd (snd r)) rs))"
proof (induction wb arbitrary: rs processed total_filled total_skipped)
  case Nil
  then show ?case by simp
next
  case (Cons ws rest)
  then obtain r rs' where rs: "rs = r # rs'" "process_sheet find_url build ws = Inr r"
    "map (process_sheet find_url build) rest = map Inr rs'"
    by (cases rs) auto
  obtain ws1 f1 s1 where r: "r = (ws1, f1, s1)" by (cases r)
  from Cons.IH[OF rs(3), of "processed @ [ws1]" "total_filled + f1" "total_skipped + s1"] rs r
  show ?case by simp
qed

lemma run_pass_sheet:
  assumes "run_pass find_url build wb = Saved wb' total_filled total_skipped" and "i < length wb"
  shows "length wb' = length wb
       \<and> (\<exists>filled skipped. process_sheet find_url build (wb ! i) = Inr (wb' ! i, filled, skipped))"
proof -
  from assms(1) have "process_sheets find_url build wb ([], 0, 0) = Inr (wb', total_filled, total_skipped)"
    by (auto simp: run_pass_def split: sum.splits)
  from process_sheets_results[OF this] obtain rs where
    rs: "map (process_sheet find_url build) wb = map Inr rs" "wb' = map fst rs"
    by auto
  from rs(1) have len: "length rs = length wb" by (metis length_map)
  from rs(1) assms(2) len have "process_sheet find_url build (wb ! i) = Inr (rs ! i)"
    by (metis nth_map)
  moreover from rs(2) assms(2) len have "wb' ! i = fst (rs ! i)" by simp
  ultimately have "process_sheet find_url build (wb ! i) = Inr (wb' ! i, fst (snd (rs ! i)), snd (snd (rs ! i)))"
    by simp
  with rs(2) len show ?thesis by auto
qed

lemma run_pass_single:
  "process_sheet find_url build ws = Inr (ws', filled, skipped) \<Longrightarrow>
     run_pass find_url build [ws] = Saved [ws'] filled skipped"
  by (simp add: run_pass_def)

lemma mains_run_pass:
  "main_bing (Some wb) bget head allowed_domains =
     run_pass (bing_find bget head allowed_domains) build_query wb"
  "resolve_google_key_and_cx key_src cx_src = Inr (k, c) \<Longrightarrow>
     main_google (Some wb) key_src cx_src gget head = run_pass (google_find gget head k c) build_query wb"
  "main_pixabay (Some wb) api_key pget head =
     run_pass (pixabay_find api_key pget head) build_query_pixabay wb"
  by (simp_all add: main_bing_def main_google_def main_pixabay_def)

section \<open>Header creation\<close>

text \<open>
  Claim C9, as amended. For every sheet, \<open>ensure_headers\<close> runs once, before any row of the
  sheet is processed. Each needed header (the primary one, then the target) that row 1 does
  not hold within the used columns is appended as a new column immediately after the last
  used column of the sheet (\<open>ws.max_column\<close>, or column 1 when that is 0), the second new
  header after the first; a header that is present keeps its column. The column index
  returned for the target header is the one the row loop is run with, and every cell the
  row loop writes is in that column, in a row from 2 on.
\<close>

theorem ensure_headers_appends_after_used_columns:
  assumes "ensure_headers ws0 [TITLE_HEADER, IMAGE_HEADER] = (ws, col_map)"
  shows "(headers_read ws0 TITLE_HEADER = None \<longrightarrow>
            col_map TITLE_HEADER = Some (effective_max_column ws0 + 1)
            \<and> cell_value ws (1, effective_max_column ws0 + 1) = CStr TITLE_HEADER)
       \<and> (headers_read ws0 TITLE_HEADER \<noteq> None \<and> headers_read ws0 IMAGE_HEADER = None \<longrightarrow>
            col_map IMAGE_HEADER = Some (effective_max_column ws0 + 1)
            \<and> cell_value ws (1, effective_max_column ws0 + 1) = CStr IMAGE_HEADER)
       \<and> (headers_read ws0 TITLE_HEADER = None \<and> headers_read ws0 IMAGE_HEADER = None \<longrightarrow>
            col_map IMAGE_HEADER = Some (effective_max_column ws0 + 2)
            \<and> cell_value ws (1, effective_max_column ws0 + 2) = CStr IMAGE_HEADER)
       \<and> (\<forall>h c. headers_read ws0 h = Some c \<longrightarrow> col_map h = Some c \<and> c \<le> effective_max_column ws0)
       \<and> (\<exists>title_col image_col.
            col_map TITLE_HEADER = Some title_col \<and> col_map IMAGE_HEADER = Some image_col
            \<and> process_sheet find_url build ws0 =
                process_rows find_url build col_map title_col image_col [2..<max_row ws + 1] (ws, 0, 0)
            \<and> (\<forall>ws' filled skipped. process_sheet find_url build ws0 = Inr (ws', filled, skipped) \<longrightarrow>
                  (\<exists>new. writes ws' = writes ws @ new
                     \<and> (\<forall>p \<in> set new. snd p = image_col \<and> 2 \<le> fst p))))"
proof -
  note eq = assms[unfolded ensure_headers_cases Let_def]
  have a: "headers_read ws0 TITLE_HEADER = None \<longrightarrow>
            col_map TITLE_HEADER = Some (effective_max_column ws0 + 1)
            \<and> cell_value ws (1, effective_max_column ws0 + 1) = CStr TITLE_HEADER"
    using eq title_not_image by (auto split: if_splits)
  have b: "headers_read ws0 TITLE_HEADER \<noteq> None \<and> headers_read ws0 IMAGE_HEADER = None \<longrightarrow>
            col_map IMAGE_HEADER = Some (effective_max_column ws0 + 1)
            \<and> cell_value ws (1, effective_max_column ws0 + 1) = CStr IMAGE_HEADER"
    using eq by (auto split: if_splits)
  have c: "headers_read ws0 TITLE_HEADER = None \<and> headers_read ws0 IMAGE_HEADER = None \<longrightarrow>
            col_map IMAGE_HEADER = Some (effective_max_column ws0 + 2)
            \<and> cell_value ws (1, effective_max_column ws0 + 2) = CStr IMAGE_HEADER"
    using eq by (auto split: if_splits)
  have d: "\<forall>h c. headers_read ws0 h = Some c \<longrightarrow> col_map h = Some c \<and> c \<le> effective_max_column ws0"
    using eq headers_read_bound[of ws0] by (auto split: if_splits)
  from ensure_headers_columns[OF assms] obtain title_col image_col where
    cols: "col_map TITLE_HEADER = Some title_col" "col_map IMAGE_HEADER = Some image_col"
    by blast
  note rows = process_sheet_rows[OF assms cols, of find_url build]
  have e: "\<exists>new. writes ws' = writes ws @ new \<and> (\<forall>p \<in> set new. snd p = image_col \<and> 2 \<le> fst p)"
    if "process_sheet find_url build ws0 = Inr (ws', filled, skipped)" for ws' filled skipped
  proof -
    from that rows have "process_rows find_url build col_map title_col image_col
        [2..<max_row ws + 1] (ws, 0, 0) = Inr (ws', filled, skipped)" by simp
    from process_rows_writes[OF this] obtain new where
      "writes ws' = writes ws @ new"
      "\<forall>p \<in> set new. snd p = image_col \<and> fst p \<in> set [2..<max_row ws + 1]"
      by blast
    then have "writes ws' = writes ws @ new \<and> (\<forall>p \<in> set new. snd p = image_col \<and> 2 \<le> fst p)"
      by (simp del: upt_Suc)
    then show ?thesis by blast
  qed
  from a b c d cols rows e show ?thesis by blast
qed

lemma strip_eval:
  "strip ''Title'' = ''Title''" "strip ''Image'' = ''Image''" "strip ''liveurl2'' = ''liveurl2''"
  by (simp_all add: strip_def isspace_def)

lemma gap_sheet_headers:
  "ensure_headers gap_sheet [TITLE_HEADER, IMAGE_HEADER] =
     (set_cell gap_sheet 1 4 (CStr ''Image''), [''Title'' \<mapsto> 1, ''Image'' \<mapsto> 4])"
  by (simp add: ensure_headers_def gap_sheet_def empty_sheet_def TITLE_HEADER_def IMAGE_HEADER_def
        upt_conv_Cons strip_eval del: upt_Suc)

text \<open>
  On \<open>gap_sheet\<close> the header \<open>Title\<close> is present in column 1, the used columns end at 3,
  and \<open>Image\<close> is appended in column 4.
\<close>

theorem ensure_headers_appends_after_used_columns_witness:
  "headers_read gap_sheet IMAGE_HEADER = None
   \<and> headers_read gap_sheet TITLE_HEADER = Some 1
   \<and> effective_max_column gap_sheet = 3
   \<and> snd (ensure_headers gap_sheet [TITLE_HEADER, IMAGE_HEADER]) IMAGE_HEADER = Some 4
   \<and> cell_value (fst (ensure_headers gap_sheet [TITLE_HEADER, IMAGE_HEADER])) (1, 4) = CStr IMAGE_HEADER
   \<and> snd (ensure_headers gap_sheet [TITLE_HEADER, IMAGE_HEADER]) TITLE_HEADER = Some 1"
proof -
  have r: "headers_read gap_sheet IMAGE_HEADER = None" "headers_read gap_sheet TITLE_HEADER = Some 1"
    "effective_max_column gap_sheet = 3"
    by (simp_all add: headers_read_def effective_max_column_def gap_sheet_def empty_sheet_def
          TITLE_HEADER_def IMAGE_HEADER_def upt_conv_Cons strip_eval del: upt_Suc)
  from ensure_headers_appends_after_used_columns[OF gap_sheet_headers, of "\<lambda>q. Inr None" build_query] r
  show ?thesis unfolding gap_sheet_headers by (simp add: IMAGE_HEADER_def TITLE_HEADER_def)
qed

text \<open>
  On a new, empty worksheet \<open>ws.max_column\<close> is 1: the two headers go to columns 2 and 3,
  and column 1 stays empty.
\<close>

lemma empty_sheet_headers:
  "snd (ensure_headers empty_sheet [TITLE_HEADER, IMAGE_HEADER]) TITLE_HEADER = Some 2"
  "snd (ensure_headers empty_sheet [TITLE_HEADER, IMAGE_HEADER]) IMAGE_HEADER = Some 3"
  by code_simp+

text \<open>
  Claim C9 as stated fails on \<open>gap_sheet\<close>: the last populated header is in column 1, yet
  the target header is appended in column 4, not in column 2.
\<close>

theorem header_not_next_to_last_populated_header:
  "snd (ensure_headers gap_sheet [TITLE_HEADER, IMAGE_HEADER]) IMAGE_HEADER = Some 4
   \<and> last_populated_header gap_sheet = 1"
proof -
  have "last_populated_header gap_sheet = 1"
    by (simp add: last_populated_header_def gap_sheet_def empty_sheet_def upt_conv_Cons del: upt_Suc)
  moreover have "snd (ensure_headers gap_sheet [TITLE_HEADER, IMAGE_HEADER]) IMAGE_HEADER = Some 4"
    unfolding gap_sheet_headers by (simp add: IMAGE_HEADER_def)
  ultimately show ?thesis by simp
qed

section \<open>Existing images are kept\<close>

lemma process_sheet_keeps_image:
  assumes run: "process_sheet find_url build ws0 = Inr (ws', filled, skipped)"
    and col: "snd (ensure_headers ws0 [TITLE_HEADER, IMAGE_HEADER]) IMAGE_HEADER = Some image_col"
    and row: "2 \<le> r"
    and full: "nonblank (cell_value ws0 (r, image_col))"
  shows "cell_value ws' (r, image_col) = cell_value ws0 (r, image_col)
       \<and> (\<exists>new. writes ws' = writes ws0 @ new \<and> (r, image_col) \<notin> set new)"
proof -
  obtain ws col_map where eh: "ensure_headers ws0 [TITLE_HEADER, IMAGE_HEADER] = (ws, col_map)"
    by (cases "ensure_headers ws0 [TITLE_HEADER, IMAGE_HEADER]")
  with col have ic: "col_map IMAGE_HEADER = Some image_col" by simp
  from ensure_headers_columns[OF eh] obtain title_col where tc: "col_map TITLE_HEADER = Some title_col"
    by blast
  from process_sheet_rows[OF eh tc ic, of find_url build] run
  have rows: "process_rows find_url build col_map title_col image_col [2..<max_row ws + 1] (ws, 0, 0)
      = Inr (ws', filled, skipped)" by simp
  from ensure_headers_frame[OF eh] obtain hdr where hdr: "writes ws = writes ws0 @ hdr"
    "\<forall>p \<in> set hdr. fst p = 1" "\<forall>r c. r \<noteq> 1 \<longrightarrow> cell_value ws (r, c) = cell_value ws0 (r, c)"
    by blast
  from row hdr(3) have same0: "cell_value ws (r, image_col) = cell_value ws0 (r, image_col)" by simp
  with full have full': "nonblank (cell_value ws (r, image_col))" by simp
  from process_rows_cells[OF rows, of image_col r] full' same0
  have cell: "cell_value ws' (r, image_col) = cell_value ws0 (r, image_col)" by simp
  from process_rows_writes[OF rows] obtain new where new: "writes ws' = writes ws @ new"
    "\<forall>p \<in> set new. snd p = image_col \<and> \<not> nonblank (cell_value ws p)"
    by blast
  from new(2) full' have "(r, image_col) \<notin> set new" by auto
  moreover from hdr(2) row have "(r, image_col) \<notin> set hdr" by auto
  ultimately have "writes ws' = writes ws0 @ (hdr @ new) \<and> (r, image_col) \<notin> set (hdr @ new)"
    using new(1) hdr(1) by simp
  with cell show ?thesis by blast
qed

text \<open>
  What the guard does keep. For every sheet of the workbook and every row from 2 on, if
  the image cell holds a value that passes the guard before the pass (a true value whose
  string form is non-blank after trimming: a text with a character other than whitespace,
  a number other than 0, or \<open>True\<close>), then the pass never writes to that cell: its value
  after the pass equals its value before, whatever the provider call \<open>find_url\<close> answers for
  any row. The three scripts are \<open>run_pass\<close> with their provider call and their
  \<open>build_query\<close>.
\<close>

lemma guarded_image_kept:
  assumes "run_pass find_url build wb = Saved wb' total_filled total_skipped"
    and "i < length wb"
    and "snd (ensure_headers (wb ! i) [TITLE_HEADER, IMAGE_HEADER]) IMAGE_HEADER = Some image_col"
    and "2 \<le> r"
    and "nonblank (cell_value (wb ! i) (r, image_col))"
  shows "cell_value (wb' ! i) (r, image_col) = cell_value (wb ! i) (r, image_col)
       \<and> (\<exists>new. writes (wb' ! i) = writes (wb ! i) @ new \<and> (r, image_col) \<notin> set new)"
proof -
  from run_pass_sheet[OF assms(1,2)] obtain filled skipped where
    "process_sheet find_url build (wb ! i) = Inr (wb' ! i, filled, skipped)" by blast
  from process_sheet_keeps_image[OF this assms(3,4,5)] show ?thesis .
qed

lemma example_find:
  "bing_find example_get example_head [] query = Inr (Some ''liveurl2'')"
  by (simp add: bing_find_def bing_first_live_image_def BING_PAGES_FIRST_PARAMS_def after_def example_get_def
        example_head_def raise_for_status_def head_ok_def domain_is_allowed_def)

lemma filled_sheet_facts:
  "headers_read filled_sheet TITLE_HEADER = Some 1"
  "headers_read filled_sheet IMAGE_HEADER = Some 2"
  "[2..<max_row filled_sheet + 1] = [2, 3]"
  "nonblank (cell_value filled_sheet (2, Suc 0))"
  "nonblank (cell_value filled_sheet (2, 2))"
  "nonblank (cell_value filled_sheet (3, Suc 0))"
  "\<not> nonblank (cell_value filled_sheet (3, 2))"
  by code_simp+

lemma filled_sheet_old_image: "cell_value filled_sheet (2, 2) = CStr ''http://old/a.png''"
  by code_simp

lemma filled_sheet_pass:
  "run_pass (bing_find example_get example_head []) build_query [filled_sheet] =
     Saved [set_cell filled_sheet 3 2 (CStr ''liveurl2'')] 1 0"
proof (rule run_pass_single)
  show "process_sheet (bing_find example_get example_head []) build_query filled_sheet
      = Inr (set_cell filled_sheet 3 2 (CStr ''liveurl2''), 1, 0)"
    unfolding process_sheet_present[OF filled_sheet_facts(1,2)] filled_sheet_facts(3)
    by (simp add: process_row_def filled_sheet_facts example_find nonempty_def)
qed

text \<open>
  On \<open>filled_sheet\<close> the pass fills row 3 and leaves the image of row 2 as it was.
\<close>

lemma guarded_image_kept_example:
  "run_pass (bing_find example_get example_head []) build_query [filled_sheet]
     = Saved [set_cell filled_sheet 3 2 (CStr ''liveurl2'')] 1 0
   \<and> cell_value filled_sheet (2, 2) = CStr ''http://old/a.png''
   \<and> cell_value (set_cell filled_sheet 3 2 (CStr ''liveurl2'')) (2, 2) = CStr ''http://old/a.png''
   \<and> (\<exists>new. writes (set_cell filled_sheet 3 2 (CStr ''liveurl2'')) = writes filled_sheet @ new
         \<and> (2, 2) \<notin> set new)"
proof -
  have hdr: "ensure_headers filled_sheet [TITLE_HEADER, IMAGE_HEADER] = (filled_sheet, headers_read filled_sheet)"
    by (simp add: ensure_headers_cases filled_sheet_facts)
  have col: "snd (ensure_headers ([filled_sheet] ! 0) [TITLE_HEADER, IMAGE_HEADER]) IMAGE_HEADER = Some 2"
    by (simp add: hdr filled_sheet_facts)
  have full: "nonblank (cell_value ([filled_sheet] ! 0) (2, 2))"
    by (simp add: filled_sheet_facts)
  from guarded_image_kept[OF filled_sheet_pass _ col _ full] filled_sheet_old_image
    filled_sheet_pass
  show ?thesis by simp
qed









section \<open>Running the pass again\<close>

lemma optional_bits_cong:
  "(\<And>c. cell_value wsA (r, c) = cell_value wsB (r, c)) \<Longrightarrow>
     optional_bits wsA r col_map names = optional_bits wsB r col_map names"
  by (induction names) (auto split: option.splits)

lemma build_query_cong:
  assumes "build = build_query \<or> build = build_query_pixabay"
    and "\<And>c. cell_value wsA (r, c) = cell_value wsB (r, c)"
  shows "build t wsA r col_map = build t wsB r col_map"
  using assms(1) optional_bits_cong[of wsA r wsB col_map OPTIONAL_QUERY_COLUMNS, OF assms(2)]
  by (auto simp: build_query_def build_query_pixabay_def query_bits_def)

lemma process_row_skipped_mono:
  "process_row find_url build col_map title_col image_col row (ws, filled, skipped) = Inr (ws', filled', skipped')
   \<Longrightarrow> skipped \<le> skipped'"
  by (drule process_row_cases) auto

lemma process_rows_skipped_mono:
  "process_rows find_url build col_map title_col image_col rows (ws, filled, skipped) = Inr (ws', filled', skipped')
   \<Longrightarrow> skipped \<le> skipped'"
proof (induction rows arbitrary: ws filled skipped)
  case Nil
  then show ?case by simp
next
  case (Cons row rows)
  from Cons.prems(1) obtain ws2 f2 s2 where
    step: "process_row find_url build col_map title_col image_col row (ws, filled, skipped) = Inr (ws2, f2, s2)"
    and rest: "process_rows find_url build col_map title_col image_col rows (ws2, f2, s2) = Inr (ws', filled', skipped')"
    by (auto split: sum.splits)
  from process_row_skipped_mono[OF step] Cons.IH[OF rest] show ?case by simp
qed

lemma second_pass_rows:
  assumes "process_rows find_url build col_map title_col image_col rows (ws, filled, skipped)
             = Inr (ws', filled', skipped')"
    and "distinct rows"
    and "title_col \<noteq> image_col"
    and "build = build_query \<or> build = build_query_pixabay"
    and "\<forall>query u. find_url query = Inr (Some u) \<longrightarrow> u \<noteq> [] \<longrightarrow> strip u \<noteq> []"
    and "\<forall>r \<in> set rows. \<forall>c. cell_value wsX (r, c) = cell_value ws' (r, c)"
  shows "process_rows find_url build col_map title_col image_col rows (wsX, g, t)
           = Inr (wsX, g, t + (skipped' - skipped))"
  using assms(1,2,6)
proof (induction rows arbitrary: ws filled skipped g t)
  case Nil
  then show ?case by simp
next
  case (Cons row rows)
  from Cons.prems(1) obtain ws2 f2 s2 where
    step: "process_row find_url build col_map title_col image_col row (ws, filled, skipped) = Inr (ws2, f2, s2)"
    and rest: "process_rows find_url build col_map title_col image_col rows (ws2, f2, s2) = Inr (ws', filled', skipped')"
    by (auto split: sum.splits)
  from Cons.prems(2) have fresh: "row \<notin> set rows" and dist: "distinct rows" by simp_all
  from Cons.prems(3) have agree: "\<forall>r \<in> set rows. \<forall>c. cell_value wsX (r, c) = cell_value ws' (r, c)"
    by simp
  have rowX: "cell_value wsX (row, c) = cell_value ws2 (row, c)" for c
    using Cons.prems(3) process_rows_cells[OF rest, of c row] fresh by simp
  note mono = process_rows_skipped_mono[OF rest] process_row_skipped_mono[OF step]
  have later: "process_rows find_url build col_map title_col image_col rows (wsX, g', t')
      = Inr (wsX, g', t' + (skipped' - s2))" for g' t'
    by (rule Cons.IH[OF rest dist agree])
  from process_row_cases[OF step]
  consider (blank_title) "ws2 = ws" "s2 = skipped + 1" "\<not> nonblank (cell_value ws (row, title_col))"
    | (has_image) "ws2 = ws" "s2 = skipped" "nonblank (cell_value ws (row, title_col))"
        "nonblank (cell_value ws (row, image_col))"
    | (not_found) url where "ws2 = ws" "s2 = skipped" "nonblank (cell_value ws (row, title_col))"
        "\<not> nonblank (cell_value ws (row, image_col))"
        "find_url (build (py_str (cell_value ws (row, title_col))) ws row col_map) = Inr url"
        "\<not> nonempty url"
    | (wrote) u where "ws2 = set_cell ws row image_col (CStr u)" "s2 = skipped"
        "nonblank (cell_value ws (row, title_col))"
        "find_url (build (py_str (cell_value ws (row, title_col))) ws row col_map) = Inr (Some u)"
        "u \<noteq> []"
    by blast
  then have stepX: "process_row find_url build col_map title_col image_col row (wsX, g, t)
      = Inr (wsX, g, t + (s2 - skipped))"
  proof cases
    case blank_title
    with rowX[of title_col] show ?thesis by (simp add: process_row_def)
  next
    case has_image
    with rowX[of title_col] rowX[of image_col] show ?thesis by (simp add: process_row_def)
  next
    case not_found
    have "build (py_str (cell_value ws (row, title_col))) wsX row col_map
        = build (py_str (cell_value ws (row, title_col))) ws row col_map"
      using build_query_cong[OF assms(4), of wsX row ws] rowX not_found(1) by simp
    with not_found rowX[of title_col] rowX[of image_col] show ?thesis
      by (simp add: process_row_def)
  next
    case wrote
    from assms(5) wrote(4,5) have "nonblank (CStr u)" by (simp add: nonblank_def)
    with wrote rowX[of title_col] rowX[of image_col] assms(3) show ?thesis
      by (simp add: process_row_def)
  qed
  show ?case
    using stepX later[of g "t + (s2 - skipped)"] mono by simp
qed

lemma headers_read_cong:
  assumes "effective_max_column ws' = effective_max_column ws"
    and "\<And>c. cell_value ws' (1, c) = cell_value ws (1, c)"
  shows "headers_read ws' = headers_read ws"
  unfolding headers_read_def assms(1)
  by (rule read_headers_cong) (use assms(2) in simp)

lemma upt_snoc: "[1..<n + 2] = [1..<n + 1] @ [n + 1]"
  by simp

lemma headers_read_appended:
  assumes "strip h = h" and "h \<noteq> []"
  shows "headers_read (set_cell ws 1 (effective_max_column ws + 1) (CStr h))
           = (headers_read ws)(h \<mapsto> effective_max_column ws + 1)"
proof -
  let ?mc = "effective_max_column ws"
  let ?ws = "set_cell ws 1 (?mc + 1) (CStr h)"
  have "read_headers ?ws [1..<?mc + 1] Map.empty = read_headers ws [1..<?mc + 1] Map.empty"
    by (rule read_headers_cong) (auto simp del: upt_Suc)
  then have "read_headers ?ws ([1..<?mc + 1] @ [?mc + 1]) Map.empty
      = (read_headers ws [1..<?mc + 1] Map.empty)(h \<mapsto> ?mc + 1)"
    using assms by (simp only: read_headers_append) simp
  moreover have "effective_max_column ?ws = ?mc + 1" by simp
  ultimately show ?thesis
    by (simp only: headers_read_def upt_snoc[symmetric] add.assoc) simp
qed

lemma ensure_headers_read_back:
  assumes "ensure_headers ws0 [TITLE_HEADER, IMAGE_HEADER] = (ws, col_map)"
  shows "headers_read ws = col_map"
proof -
  note eq = assms[unfolded ensure_headers_cases Let_def]
  note app = headers_read_appended[OF strip_headers(1,3)] headers_read_appended[OF strip_headers(2,4)]
  show ?thesis
  proof (cases "headers_read ws0 TITLE_HEADER = None")
    case tn: True
    show ?thesis
    proof (cases "headers_read ws0 IMAGE_HEADER = None")
      case True
      let ?w1 = "set_cell ws0 1 (effective_max_column ws0 + 1) (CStr TITLE_HEADER)"
      have e1: "effective_max_column ?w1 = effective_max_column ws0 + 1" by simp
      from tn True eq have "ws = set_cell ?w1 1 (effective_max_column ?w1 + 1) (CStr IMAGE_HEADER)"
        and "col_map = (headers_read ws0)(TITLE_HEADER \<mapsto> effective_max_column ws0 + 1,
               IMAGE_HEADER \<mapsto> effective_max_column ?w1 + 1)"
        by (simp_all add: e1)
      then show ?thesis by (simp only: app)
    next
      case False
      with tn eq app(1)[of ws0] show ?thesis by auto
    qed
  next
    case ts: False
    show ?thesis
    proof (cases "headers_read ws0 IMAGE_HEADER = None")
      case True
      with ts eq app(2)[of ws0] show ?thesis by auto
    next
      case False
      with ts eq show ?thesis by auto
    qed
  qed
qed

lemma second_pass_sheet:
  assumes run: "process_sheet find_url build ws0 = Inr (ws1, filled, skipped)"
    and build: "build = build_query \<or> build = build_query_pixabay"
    and urls: "\<forall>query u. find_url query = Inr (Some u) \<longrightarrow> u \<noteq> [] \<longrightarrow> strip u \<noteq> []"
  shows "process_sheet find_url build ws1 = Inr (ws1, 0, skipped)"
proof -
  obtain ws col_map where eh: "ensure_headers ws0 [TITLE_HEADER, IMAGE_HEADER] = (ws, col_map)"
    by (cases "ensure_headers ws0 [TITLE_HEADER, IMAGE_HEADER]")
  from ensure_headers_columns[OF eh] obtain title_col image_col where
    cols: "col_map TITLE_HEADER = Some title_col" "col_map IMAGE_HEADER = Some image_col"
      "title_col \<noteq> image_col" "1 \<le> image_col" "image_col \<le> effective_max_column ws"
    by blast
  let ?rows = "[2..<max_row ws + 1]"
  from process_sheet_rows[OF eh cols(1,2), of find_url build] run
  have rows: "process_rows find_url build col_map title_col image_col ?rows (ws, 0, 0)
      = Inr (ws1, filled, skipped)" by simp
  have "\<forall>r \<in> set ?rows. r \<le> max_row ws" by (simp del: upt_Suc)
  from process_rows_dims[OF rows this]
  have mr: "max_row ws1 = max_row ws"
    and mc: "max_column ws1 = (if filled = 0 then max_column ws else max (max_column ws) image_col)"
    by simp_all
  from mc cols(4,5) have emc: "effective_max_column ws1 = effective_max_column ws"
    by (auto simp: effective_max_column_def max_def split: if_splits)
  have row1: "cell_value ws1 (1, c) = cell_value ws (1, c)" for c
    using process_rows_cells[OF rows, of c 1] by (simp del: upt_Suc)
  from headers_read_cong[OF emc row1] ensure_headers_read_back[OF eh]
  have hr: "headers_read ws1 = col_map" by simp
  with cols(1,2) have "process_sheet find_url build ws1 =
      process_rows find_url build col_map title_col image_col [2..<max_row ws1 + 1] (ws1, 0, 0)"
    using process_sheet_present[of ws1 title_col image_col find_url build] by simp
  also have "\<dots> = process_rows find_url build col_map title_col image_col ?rows (ws1, 0, 0)"
    by (simp only: mr)
  also have "\<dots> = Inr (ws1, 0, 0 + (skipped - 0))"
    by (rule second_pass_rows[OF rows _ cols(3) build urls]) simp_all
  finally show ?thesis by simp
qed

text \<open>
  Claim C8, as amended. If a pass over a workbook is completed and saved, and every URL the
  provider call answers with is non-blank, then a second pass over the saved workbook, with
  the same answers of the provider, completes with exactly the same workbook, the write log
  of every sheet included: no cell is written, and the count of filled rows is 0. The
  count of skipped rows is that of the first pass: it counts the rows with a blank primary
  value only, so the rows filled before are not counted as skipped.
\<close>

theorem second_run_changes_nothing:
  assumes "run_pass find_url build wb = Saved wb1 total_filled total_skipped"
    and "build = build_query \<or> build = build_query_pixabay"
    and "\<forall>query u. find_url query = Inr (Some u) \<longrightarrow> u \<noteq> [] \<longrightarrow> strip u \<noteq> []"
  shows "run_pass find_url build wb1 = Saved wb1 0 total_skipped"
proof -
  from assms(1) have "process_sheets find_url build wb ([], 0, 0) = Inr (wb1, total_filled, total_skipped)"
    by (auto simp: run_pass_def split: sum.splits)
  from process_sheets_results[OF this] obtain rs where
    rs: "map (process_sheet find_url build) wb = map Inr rs" "wb1 = map fst rs"
      "total_skipped = sum_list (map (\<lambda>r. snd (snd r)) rs)"
    by auto
  have each: "process_sheet find_url build (fst r) = Inr (fst r, 0, snd (snd r))" if "r \<in> set rs" for r
  proof -
    from that rs(1) have "Inr r \<in> set (map (process_sheet find_url build) wb)" by simp
    then obtain ws0 where "process_sheet find_url build ws0 = Inr (fst r, fst (snd r), snd (snd r))"
      by auto
    from second_pass_sheet[OF this assms(2,3)] show ?thesis .
  qed
  let ?rs2 = "map (\<lambda>r. (fst r, 0::nat, snd (snd r))) rs"
  have "map (process_sheet find_url build) wb1 = map Inr ?rs2"
    using each by (simp add: rs(2))
  from process_sheets_from_results[OF this, of "[]" 0 0]
  have "process_sheets find_url build wb1 ([], 0, 0) = Inr (wb1, 0, total_skipped)"
    by (simp add: rs(2,3) comp_def)
  then show ?thesis by (simp add: run_pass_def)
qed

lemma refilled_sheet_facts:
  "headers_read refilled_sheet TITLE_HEADER = Some 1"
  "headers_read refilled_sheet IMAGE_HEADER = Some 2"
  "[2..<max_row refilled_sheet + 1] = [2, 3]"
  "nonblank (cell_value refilled_sheet (2, Suc 0))"
  "nonblank (cell_value refilled_sheet (2, 2))"
  "nonblank (cell_value refilled_sheet (3, Suc 0))"
  "nonblank (cell_value refilled_sheet (3, 2))"
  by code_simp+

lemma refilled_sheet_pass:
  "run_pass find_url build [refilled_sheet] = Saved [refilled_sheet] 0 0"
proof (rule run_pass_single)
  show "process_sheet find_url build refilled_sheet = Inr (refilled_sheet, 0, 0)"
    unfolding process_sheet_present[OF refilled_sheet_facts(1,2)] refilled_sheet_facts(3)
    by (simp add: process_row_def refilled_sheet_facts)
qed

text \<open>The second pass over \<open>refilled_sheet\<close>, the result of the pass over \<open>filled_sheet\<close>.\<close>

theorem second_run_changes_nothing_witness:
  "run_pass (bing_find example_get example_head []) build_query [filled_sheet]
     = Saved [refilled_sheet] 1 0
   \<and> run_pass (bing_find example_get example_head []) build_query [refilled_sheet]
     = Saved [refilled_sheet] 0 0"
proof -
  have first: "run_pass (bing_find example_get example_head []) build_query [filled_sheet]
     = Saved [refilled_sheet] 1 0"
    using filled_sheet_pass by (simp add: refilled_sheet_def)
  have urls: "\<forall>query u. bing_find example_get example_head [] query = Inr (Some u) \<longrightarrow>
      u \<noteq> [] \<longrightarrow> strip u \<noteq> []"
    by (simp add: example_find strip_eval)
  from second_run_changes_nothing[OF first _ urls] first show ?thesis by simp
qed

text \<open>
  Claim C8 as stated fails on \<open>filled_sheet\<close>: the first pass fills one row, and the second
  pass, over the result, reports 0 skipped rows although both of its rows hold an image.
\<close>

theorem filled_rows_not_counted_as_skipped:
  "main_bing (Some [filled_sheet]) example_get example_head []
     = Saved [set_cell filled_sheet 3 2 (CStr ''liveurl2'')] 1 0
   \<and> main_bing (Some [set_cell filled_sheet 3 2 (CStr ''liveurl2'')]) example_get example_head []
     = Saved [set_cell filled_sheet 3 2 (CStr ''liveurl2'')] 0 0"
  using filled_sheet_pass refilled_sheet_pass[of "bing_find example_get example_head []" build_query]
  by (simp add: refilled_sheet_def main_bing_def)

section \<open>Failures at startup\<close>

lemma process_rows_failing_find:
  assumes "\<forall>query. find_url query = Inl e"
  shows "process_rows find_url build col_map title_col image_col rows (ws, filled, skipped) = Inl e
       \<or> (\<exists>skipped'. process_rows find_url build col_map title_col image_col rows (ws, filled, skipped)
             = Inr (ws, filled, skipped'))"
proof (induction rows arbitrary: skipped)
  case Nil
  show ?case by simp
next
  case (Cons row rows)
  from assms
  have "process_row find_url build col_map title_col image_col row (ws, filled, skipped) = Inl e
      \<or> (\<exists>s2. process_row find_url build col_map title_col image_col row (ws, filled, skipped)
            = Inr (ws, filled, s2))"
    by (auto simp: process_row_def Let_def)
  then show ?case
  proof
    assume "process_row find_url build col_map title_col image_col row (ws, filled, skipped) = Inl e"
    then show ?thesis by simp
  next
    assume "\<exists>s2. process_row find_url build col_map title_col image_col row (ws, filled, skipped)
            = Inr (ws, filled, s2)"
    then obtain s2 where "process_row find_url build col_map title_col image_col row (ws, filled, skipped)
            = Inr (ws, filled, s2)" by blast
    with Cons.IH[of s2] show ?thesis by simp
  qed
qed

lemma process_sheet_failing_find:
  assumes "\<forall>query. find_url query = Inl e"
  shows "process_sheet find_url build ws0 = Inl e
       \<or> (\<exists>skipped. process_sheet find_url build ws0
             = Inr (fst (ensure_headers ws0 [TITLE_HEADER, IMAGE_HEADER]), 0, skipped))"
proof -
  obtain ws col_map where eh: "ensure_headers ws0 [TITLE_HEADER, IMAGE_HEADER] = (ws, col_map)"
    by (cases "ensure_headers ws0 [TITLE_HEADER, IMAGE_HEADER]")
  from ensure_headers_columns[OF eh] obtain title_col image_col where
    cols: "col_map TITLE_HEADER = Some title_col" "col_map IMAGE_HEADER = Some image_col"
    by blast
  from process_rows_failing_find[OF assms, of build col_map title_col image_col "[2..<max_row ws + 1]" ws 0 0]
    process_sheet_rows[OF eh cols, of find_url build] eh
  show ?thesis by simp
qed

lemma process_sheets_failing_find:
  assumes "\<forall>query. find_url query = Inl e"
  shows "process_sheets find_url build wb (processed, total_filled, total_skipped) = Inl e
       \<or> (\<exists>total_skipped'. process_sheets find_url build wb (processed, total_filled, total_skipped)
             = Inr (processed @ map (\<lambda>ws. fst (ensure_headers ws [TITLE_HEADER, IMAGE_HEADER])) wb,
                    total_filled, total_skipped'))"
proof (induction wb arbitrary: processed total_skipped)
  case Nil
  show ?case by simp
next
  case (Cons ws rest)
  from process_sheet_failing_find[OF assms, of build ws]
  show ?case
  proof
    assume "process_sheet find_url build ws = Inl e"
    then show ?thesis by simp
  next
    assume "\<exists>skipped. process_sheet find_url build ws
        = Inr (fst (ensure_headers ws [TITLE_HEADER, IMAGE_HEADER]), 0, skipped)"
    then obtain skipped where "process_sheet find_url build ws
        = Inr (fst (ensure_headers ws [TITLE_HEADER, IMAGE_HEADER]), 0, skipped)" by blast
    with Cons.IH[of "processed @ [fst (ensure_headers ws [TITLE_HEADER, IMAGE_HEADER])]"
        "total_skipped + skipped"]
    show ?thesis by auto
  qed
qed

lemma main_pixabay_without_key:
  "main_pixabay (Some wb) [] get head = Uncaught (RuntimeError PIXABAY_KEY_MESSAGE)
   \<or> (\<exists>total_skipped. main_pixabay (Some wb) [] get head
         = Saved (map (\<lambda>ws. fst (ensure_headers ws [TITLE_HEADER, IMAGE_HEADER])) wb) 0 total_skipped)"
proof -
  have "\<forall>query. pixabay_find [] get head query = Inl (RuntimeError PIXABAY_KEY_MESSAGE)"
    by (simp add: pixabay_find_def pixabay_first_image_url_def)
  from process_sheets_failing_find[OF this, of build_query_pixabay wb "[]" 0 0]
  show ?thesis by (auto simp: main_pixabay_def run_pass_def)
qed

text \<open>
  Claim C5, as amended. If the input workbook cannot be located, each script reports it and
  returns before the workbook is loaded: nothing is mutated or saved, and the exit status
  is zero. In the Google script, if a credential cannot be resolved, \<open>main\<close> ends with the
  uncaught exception before the workbook is loaded: nothing is mutated or saved, and the
  exit status is 1. In the Pixabay script the key is checked by each provider call: with an
  empty key the run either ends with the uncaught \<open>RuntimeError\<close> of a provider call,
  nothing being saved, or completes and saves the workbook with only its headers ensured
  and no row filled. Every run that saves the workbook exits with status zero, also when
  zero rows were filled.
\<close>

theorem startup_failures:
  "main_bing None bget head allowed_domains = InputNotFound
   \<and> main_google None key_src cx_src gget head = InputNotFound
   \<and> main_pixabay None api_key pget head = InputNotFound
   \<and> exit_status InputNotFound = 0
   \<and> (\<forall>e. resolve_google_key_and_cx key_src cx_src = Inl e \<longrightarrow>
        main_google (Some wb) key_src cx_src gget head = Uncaught e
        \<and> exit_status (main_google (Some wb) key_src cx_src gget head) = 1)
   \<and> (main_pixabay (Some wb) [] pget head = Uncaught (RuntimeError PIXABAY_KEY_MESSAGE)
      \<or> (\<exists>total_skipped. main_pixabay (Some wb) [] pget head
            = Saved (map (\<lambda>ws. fst (ensure_headers ws [TITLE_HEADER, IMAGE_HEADER])) wb) 0 total_skipped))
   \<and> exit_status (Saved wb' total_filled total_skipped) = 0"
  using main_pixabay_without_key[of wb pget head]
  by (simp add: main_bing_def main_google_def main_pixabay_def)

lemma resolved_credentials_nonempty:
  "resolve_google_key_and_cx key_src cx_src = Inr (k, c) \<Longrightarrow> k \<noteq> [] \<and> c \<noteq> []"
  by (auto simp: resolve_google_key_and_cx_def Let_def split: sum.splits if_splits)

lemma no_credential_fails:
  "resolve_google_key_and_cx no_credential no_credential = Inl (RuntimeError MISSING_CREDENTIALS_MESSAGE)"
  by (simp add: resolve_google_key_and_cx_def no_credential_def from_args_env_def from_file_def
        from_prompt_def nonempty_def strip_def)

text \<open>The Google script with no credential from any source.\<close>

theorem startup_failures_witness:
  "resolve_google_key_and_cx no_credential no_credential = Inl (RuntimeError MISSING_CREDENTIALS_MESSAGE)
   \<and> main_google (Some [filled_sheet]) no_credential no_credential always_429 example_head
       = Uncaught (RuntimeError MISSING_CREDENTIALS_MESSAGE)
   \<and> exit_status (main_google (Some [filled_sheet]) no_credential no_credential always_429 example_head) = 1"
  using startup_failures[of example_get example_head "[]" no_credential no_credential always_429
      "[]" "\<lambda>q. Inl RequestException" "[filled_sheet]" "[]" 0 0] no_credential_fails
  by simp

text \<open>
  Claim C5 as stated fails: with the input workbook missing the Bing and Google scripts end
  with exit status 0, and with the key missing the Pixabay script completes a pass over a
  workbook whose rows all hold an image and ends with exit status 0.
\<close>

theorem missing_workbook_exits_zero:
  "exit_status (main_bing None example_get example_head []) = 0
   \<and> exit_status (main_google None no_credential no_credential always_429 example_head) = 0
   \<and> main_pixabay (Some [refilled_sheet]) [] (\<lambda>query. Inl RequestException) example_head
       = Saved [refilled_sheet] 0 0
   \<and> exit_status (main_pixabay (Some [refilled_sheet]) [] (\<lambda>query. Inl RequestException) example_head) = 0"
  by (simp add: main_bing_def main_google_def main_pixabay_def refilled_sheet_pass)

end
